theory Spec2Isabelle
  imports Main "HOL-Library.Sublist" "HOL-Library.Multiset"
begin

section \<open>Python values, errors and text helpers\<close>

text \<open>
  Values read out of the JSON dictionaries the Twitch API returns: a field is either
  \<open>null\<close> (Python \<open>None\<close>) or a string. Text is a list of characters; the
  helpers below follow Python's \<open>str\<close> methods on code points below 256.
\<close>

datatype pyval = PNone | PStr string

datatype py_error = KeyError string | AttributeError string | IndexError | TypeError
  | ServiceError string

type_synonym pydict = "string \<rightharpoonup> pyval"

text \<open>Truthiness of a value, as \<open>if v:\<close> tests it.\<close>

fun truthy :: "pyval \<Rightarrow> bool" where
  "truthy PNone = False"
| "truthy (PStr s) = (s \<noteq> [])"

text \<open>\<open>d[k]\<close> raises KeyError on a missing key; \<open>d.get(k, default)\<close> does not.\<close>

definition dict_item :: "pydict \<Rightarrow> string \<Rightarrow> py_error + pyval" where
  "dict_item d k = (case d k of None \<Rightarrow> Inl (KeyError k) | Some v \<Rightarrow> Inr v)"

definition dict_get :: "pydict \<Rightarrow> string \<Rightarrow> pyval \<Rightarrow> pyval" where
  "dict_get d k dflt = (case d k of None \<Rightarrow> dflt | Some v \<Rightarrow> v)"

text \<open>The character class \<open>[a-zA-Z0-9]\<close>.\<close>

definition is_alnum :: "char \<Rightarrow> bool" where
  "is_alnum c = (let n = (of_char c :: nat) in
     (97 \<le> n \<and> n \<le> 122) \<or> (65 \<le> n \<and> n \<le> 90) \<or> (48 \<le> n \<and> n \<le> 57))"

text \<open>\<open>str.lower()\<close>: A-Z and the Latin-1 capitals move up by 32.\<close>

definition lower_char :: "char \<Rightarrow> char" where
  "lower_char c = (let n = (of_char c :: nat) in
     if (65 \<le> n \<and> n \<le> 90) \<or> (192 \<le> n \<and> n \<le> 222 \<and> n \<noteq> 215)
     then char_of (n + 32) else c)"

definition lower :: "string \<Rightarrow> string" where
  "lower s = map lower_char s"

text \<open>\<open>str.strip()\<close> removes leading and trailing whitespace (\<open>str.isspace\<close>).\<close>

definition is_space :: "char \<Rightarrow> bool" where
  "is_space c = (let n = (of_char c :: nat) in
     (9 \<le> n \<and> n \<le> 13) \<or> (28 \<le> n \<and> n \<le> 32) \<or> n = 133 \<or> n = 160)"

definition strip :: "string \<Rightarrow> string" where
  "strip s = rev (dropWhile is_space (rev (dropWhile is_space s)))"

text \<open>\<open>sub in s\<close> on strings: \<open>sub\<close> occurs at some position of \<open>s\<close>.\<close>

fun str_contains :: "string \<Rightarrow> string \<Rightarrow> bool" where
  "str_contains sub [] = (sub = [])"
| "str_contains sub (c # cs) = (prefix sub (c # cs) \<or> str_contains sub cs)"

section \<open>Track Reference Parser\<close>

text \<open>
  The fragment of Python regular expressions the three patterns use: a literal character,
  an optional literal character (\<open>c?\<close>, greedy) and the capture group
  \<open>([a-zA-Z0-9]+)\<close> (greedy, at least one character).
\<close>

datatype rx = Chr char | OptChr char | GroupAlnumPlus

text \<open>
  \<open>match_here p s cap\<close> matches the pattern at the start of \<open>s\<close> by backtracking and
  returns group 1 on success. A greedy item tries its longest alternative first.
\<close>

fun match_here :: "rx list \<Rightarrow> string \<Rightarrow> string \<Rightarrow> string option" where
  "match_here [] s cap = Some cap"
| "match_here (Chr c # p) s cap =
     (case s of [] \<Rightarrow> None | x # xs \<Rightarrow> if x = c then match_here p xs cap else None)"
| "match_here (OptChr c # p) s cap =
     (case s of
        [] \<Rightarrow> match_here p [] cap
      | x # xs \<Rightarrow>
          if x = c
          then (case match_here p xs cap of Some g \<Rightarrow> Some g | None \<Rightarrow> match_here p s cap)
          else match_here p s cap)"
| "match_here (GroupAlnumPlus # p) s cap =
     (case filter (\<lambda>r. r \<noteq> None)
             (map (\<lambda>n. match_here p (drop n s) (take n s))
                  (rev [1 ..< Suc (length (takeWhile is_alnum s))])) of
        [] \<Rightarrow> None
      | r # _ \<Rightarrow> r)"

text \<open>\<open>re.search\<close>: the leftmost position at which the pattern matches.\<close>

fun re_search :: "rx list \<Rightarrow> string \<Rightarrow> string option" where
  "re_search p [] = match_here p [] []"
| "re_search p (x # xs) =
     (case match_here p (x # xs) [] of Some g \<Rightarrow> Some g | None \<Rightarrow> re_search p xs)"

text \<open>
  The three patterns of \<open>parse_spotify_url\<close>:
  \<^verbatim>\<open>https?://open\.spotify\.com/track/([a-zA-Z0-9]+)\<close>,
  \<^verbatim>\<open>spotify:track:([a-zA-Z0-9]+)\<close> and \<^verbatim>\<open>track/([a-zA-Z0-9]+)\<close>.
\<close>

definition patterns :: "rx list list" where
  "patterns =
     [ map Chr ''http'' @ [OptChr CHR ''s''] @ map Chr ''://open.spotify.com/track/''
         @ [GroupAlnumPlus],
       map Chr ''spotify:track:'' @ [GroupAlnumPlus],
       map Chr ''track/'' @ [GroupAlnumPlus] ]"

text \<open>The loop over the patterns: the first pattern that matches returns its group.\<close>

fun search_patterns :: "rx list list \<Rightarrow> string \<Rightarrow> string option" where
  "search_patterns [] t = None"
| "search_patterns (p # ps) t =
     (case re_search p t of Some g \<Rightarrow> Some g | None \<Rightarrow> search_patterns ps t)"

text \<open>\<open>if not text: return None\<close> covers \<open>None\<close> and the empty string.\<close>

definition parse_spotify_url :: "pyval \<Rightarrow> string option" where
  "parse_spotify_url text =
     (case text of
        PNone \<Rightarrow> None
      | PStr t \<Rightarrow> if t = [] then None else search_patterns patterns t)"

subsection \<open>The reference definition of the parser\<close>

text \<open>
  In the spec's words: an identifier is the alphanumeric token that follows a given prefix;
  a pattern is looked for at the leftmost position of the text where it applies; the
  patterns are tried in order and the first that applies wins.
\<close>

definition id_after :: "string \<Rightarrow> string \<Rightarrow> string option" where
  "id_after pre s =
     (if prefix pre s \<and> takeWhile is_alnum (drop (length pre) s) \<noteq> []
      then Some (takeWhile is_alnum (drop (length pre) s)) else None)"

fun first_id :: "string list \<Rightarrow> string \<Rightarrow> string option" where
  "first_id pres [] = None"
| "first_id pres (x # xs) =
     (case List.map_filter (\<lambda>pre. id_after pre (x # xs)) pres of
        g # _ \<Rightarrow> Some g
      | [] \<Rightarrow> first_id pres xs)"

definition first_of :: "string option list \<Rightarrow> string option" where
  "first_of rs = (case List.map_filter (\<lambda>r. r) rs of g # _ \<Rightarrow> Some g | [] \<Rightarrow> None)"

text \<open>
  The reference as the spec words it: (a) \<open>https://open.<service>.com/track/<id>\<close>,
  (b) \<open><service>:track:<id>\<close>, (c) \<open>track/<id>\<close>.
\<close>

definition ref_parse :: "string \<Rightarrow> pyval \<Rightarrow> string option" where
  "ref_parse svc text =
     (case text of
        PNone \<Rightarrow> None
      | PStr t \<Rightarrow>
          first_of
            [ first_id [''https://open.'' @ svc @ ''.com/track/''] t,
              first_id [svc @ '':track:''] t,
              first_id [''track/''] t ])"

text \<open>The same, with pattern (a) accepting the scheme \<open>http\<close> as well as \<open>https\<close>.\<close>

definition ref_parse_amended :: "string \<Rightarrow> pyval \<Rightarrow> string option" where
  "ref_parse_amended svc text =
     (case text of
        PNone \<Rightarrow> None
      | PStr t \<Rightarrow>
          first_of
            [ first_id [''https://open.'' @ svc @ ''.com/track/'',
                        ''http://open.'' @ svc @ ''.com/track/''] t,
              first_id [svc @ '':track:''] t,
              first_id [''track/''] t ])"

section \<open>Track List Assembler: removing duplicates\<close>

text \<open>
  \<open>list(dict.fromkeys(xs))\<close>: the keys are inserted one by one into an insertion-ordered
  dictionary; a key already present keeps its place. The accumulator is the key order.
\<close>

fun fromkeys :: "'a list \<Rightarrow> 'a list \<Rightarrow> 'a list" where
  "fromkeys acc [] = acc"
| "fromkeys acc (x # xs) = fromkeys (if x \<in> set acc then acc else acc @ [x]) xs"

definition dict_fromkeys_list :: "'a list \<Rightarrow> 'a list" where
  "dict_fromkeys_list xs = fromkeys [] xs"

text \<open>The spec's wording: keep the first occurrence of each element, in order.\<close>

fun keep_first :: "'a list \<Rightarrow> 'a list" where
  "keep_first [] = []"
| "keep_first (x # xs) = x # keep_first (filter (\<lambda>y. y \<noteq> x) xs)"

section \<open>Redemption Classifier\<close>

text \<open>
  The dictionaries the classifier appends (lines 317-324 and 330-335), and its two
  console warnings. The classifier's state is the two lists and the warnings printed.
\<close>

record direct_request =
  dr_track_id :: string
  dr_user :: pyval
  dr_redeemed_at :: pyval
  dr_status :: pyval
  dr_original_input :: pyval
  dr_method :: string

record search_request =
  sq_search_query :: string
  sq_user :: pyval
  sq_redeemed_at :: pyval
  sq_status :: pyval

datatype diagnostic = SkippingNonSpotifyURL string | EmptyInputFrom pyval

record classified =
  song_requests :: "direct_request list"
  search_requests :: "search_request list"
  diagnostics :: "diagnostic list"

definition no_requests :: classified where
  "no_requests = \<lparr>song_requests = [], search_requests = [], diagnostics = []\<rparr>"

text \<open>
  The branch \<open>if track_id:\<close>. The dictionary literal reads \<open>user_name\<close>,
  \<open>redeemed_at\<close> and \<open>status\<close> with \<open>redemption[...]\<close>, in this order.
\<close>

definition append_song_request ::
    "pydict \<Rightarrow> pyval \<Rightarrow> string \<Rightarrow> classified \<Rightarrow> py_error + classified" where
  "append_song_request redemption user_input track_id acc =
     (case dict_item redemption ''user_name'' of
        Inl e \<Rightarrow> Inl e
      | Inr u \<Rightarrow>
     (case dict_item redemption ''redeemed_at'' of
        Inl e \<Rightarrow> Inl e
      | Inr at \<Rightarrow>
     (case dict_item redemption ''status'' of
        Inl e \<Rightarrow> Inl e
      | Inr st \<Rightarrow>
          Inr (acc\<lparr>song_requests := song_requests acc @
                 [\<lparr>dr_track_id = track_id, dr_user = u, dr_redeemed_at = at, dr_status = st,
                   dr_original_input = user_input, dr_method = ''direct_url''\<rparr>]\<rparr>))))"

text \<open>
  The \<open>else\<close> branch (lines 326-337). \<open>user_input.lower()\<close> raises AttributeError
  when the field is \<open>null\<close>.
\<close>

definition classify_text :: "pydict \<Rightarrow> pyval \<Rightarrow> classified \<Rightarrow> py_error + classified" where
  "classify_text redemption user_input acc =
     (case user_input of
        PNone \<Rightarrow> Inl (AttributeError ''lower'')
      | PStr s \<Rightarrow>
          if str_contains ''http://'' (lower s) \<or> str_contains ''https://'' (lower s)
             \<or> str_contains ''www.'' (lower s)
          then Inr (acc\<lparr>diagnostics := diagnostics acc @ [SkippingNonSpotifyURL (take 50 s)]\<rparr>)
          else if strip s \<noteq> []
          then
            (case dict_item redemption ''user_name'' of
               Inl e \<Rightarrow> Inl e
             | Inr u \<Rightarrow>
            (case dict_item redemption ''redeemed_at'' of
               Inl e \<Rightarrow> Inl e
             | Inr at \<Rightarrow>
            (case dict_item redemption ''status'' of
               Inl e \<Rightarrow> Inl e
             | Inr st \<Rightarrow>
                 Inr (acc\<lparr>search_requests := search_requests acc @
                        [\<lparr>sq_search_query = s, sq_user = u, sq_redeemed_at = at,
                          sq_status = st\<rparr>]\<rparr>))))
          else
            (case dict_item redemption ''user_name'' of
               Inl e \<Rightarrow> Inl e
             | Inr u \<Rightarrow> Inr (acc\<lparr>diagnostics := diagnostics acc @ [EmptyInputFrom u]\<rparr>)))"

text \<open>The body of the loop over the redemptions (lines 313-337).\<close>

definition classify :: "pydict \<Rightarrow> classified \<Rightarrow> py_error + classified" where
  "classify redemption acc =
     (let user_input = dict_get redemption ''user_input'' (PStr []);
          track_id = parse_spotify_url user_input
      in case track_id of
           None \<Rightarrow> classify_text redemption user_input acc
         | Some tid \<Rightarrow>
             if tid \<noteq> [] then append_song_request redemption user_input tid acc
             else classify_text redemption user_input acc)"

fun classify_all :: "pydict list \<Rightarrow> classified \<Rightarrow> py_error + classified" where
  "classify_all [] acc = Inr acc"
| "classify_all (redemption # rest) acc =
     (case classify redemption acc of
        Inl e \<Rightarrow> Inl e
      | Inr acc' \<Rightarrow> classify_all rest acc')"

text \<open>
  What one step of the classifier did, read off the state before and after: it emitted a
  DirectRequest, emitted a SearchRequest, or discarded the record with a diagnostic.
\<close>

definition emitted_direct :: "classified \<Rightarrow> classified \<Rightarrow> bool" where
  "emitted_direct acc acc' =
     (song_requests acc' = song_requests acc @ [last (song_requests acc')]
      \<and> search_requests acc' = search_requests acc
      \<and> diagnostics acc' = diagnostics acc)"

definition emitted_search :: "classified \<Rightarrow> classified \<Rightarrow> bool" where
  "emitted_search acc acc' =
     (search_requests acc' = search_requests acc @ [last (search_requests acc')]
      \<and> song_requests acc' = song_requests acc
      \<and> diagnostics acc' = diagnostics acc)"

definition discarded :: "classified \<Rightarrow> classified \<Rightarrow> bool" where
  "discarded acc acc' =
     (diagnostics acc' = diagnostics acc @ [last (diagnostics acc')]
      \<and> song_requests acc' = song_requests acc
      \<and> search_requests acc' = search_requests acc)"

text \<open>Exactly one of the three outcomes: one holds and the other two do not.\<close>

definition exactly_one_outcome :: "classified \<Rightarrow> classified \<Rightarrow> bool" where
  "exactly_one_outcome acc acc' =
     ((emitted_direct acc acc' \<and> \<not> emitted_search acc acc' \<and> \<not> discarded acc acc')
      \<or> (emitted_search acc acc' \<and> \<not> emitted_direct acc acc' \<and> \<not> discarded acc acc')
      \<or> (discarded acc acc' \<and> \<not> emitted_direct acc acc' \<and> \<not> emitted_search acc acc'))"

text \<open>
  A RedemptionRecord of the data model: it carries the requester, the timestamp and the
  status, and its text, when present, is a string.
\<close>

definition redemption_record :: "pydict \<Rightarrow> bool" where
  "redemption_record r =
     (r ''user_name'' \<noteq> None \<and> r ''redeemed_at'' \<noteq> None \<and> r ''status'' \<noteq> None
      \<and> r ''user_input'' \<noteq> Some PNone)"

text \<open>A URL marker, in the spec's words: a case-insensitive substring of the text.\<close>

definition url_shaped :: "string \<Rightarrow> bool" where
  "url_shaped s =
     (sublist ''http://'' (lower s) \<or> sublist ''https://'' (lower s) \<or> sublist ''www.'' (lower s))"

text \<open>
  A link that is not a Spotify link, read literally: a text with a URL marker that does
  not name the service anywhere.
\<close>

definition non_spotify_link :: "string \<Rightarrow> bool" where
  "non_spotify_link s = (url_shaped s \<and> \<not> sublist ''spotify'' (lower s))"

section \<open>Twitch authorization\<close>

text \<open>
  The fields of \<open>TwitchOAuth\<close> that the flow reads and writes; \<open>__init__\<close> sets them
  all to \<open>None\<close>.
\<close>

record oauth =
  access_token :: pyval
  refresh_token :: pyval
  state :: pyval
  auth_code :: pyval

definition oauth_init :: oauth where
  "oauth_init = \<lparr>access_token = PNone, refresh_token = PNone, state = PNone, auth_code = PNone\<rparr>"

text \<open>
  A request that reaches the local callback route: its query parameters, and what the
  token endpoint answers when the handler exchanges the code (status 200 with the two
  token fields of the JSON body, another status with its text, or a transport error).
\<close>

datatype token_response = Status200 pyval pyval | StatusOther string | PostRaises py_error

record callback_request =
  cb_params :: "string \<rightharpoonup> string"
  cb_token_response :: token_response

definition params_get :: "(string \<rightharpoonup> string) \<Rightarrow> string \<Rightarrow> pyval" where
  "params_get params k = (case params k of None \<Rightarrow> PNone | Some v \<Rightarrow> PStr v)"

definition exchange_code_for_token :: "oauth \<Rightarrow> token_response \<Rightarrow> (py_error + bool) \<times> oauth" where
  "exchange_code_for_token self response =
     (case response of
        Status200 a r \<Rightarrow> (Inr True, self\<lparr>access_token := a, refresh_token := r\<rparr>)
      | StatusOther error_text \<Rightarrow> (Inr False, self)
      | PostRaises e \<Rightarrow> (Inl e, self))"

text \<open>The handler returns the HTTP status of its response and the updated object.\<close>

definition oauth_callback :: "oauth \<Rightarrow> callback_request \<Rightarrow> nat \<times> oauth" where
  "oauth_callback self request =
     (let params = cb_params request in
      if params ''error'' \<noteq> None then (400, self)
      else if params_get params ''state'' \<noteq> state self then (400, self)
      else
        let self1 = self\<lparr>auth_code := params_get params ''code''\<rparr> in
        if \<not> truthy (auth_code self1) then (400, self1)
        else
          (case exchange_code_for_token self1 (cb_token_response request) of
             (Inr True, self2) \<Rightarrow> (200, self2)
           | (Inr False, self2) \<Rightarrow> (500, self2)
           | (Inl e, self2) \<Rightarrow> (500, self2)))"

text \<open>
  The callbacks handled during one \<open>asyncio.sleep(1)\<close>, in their order of arrival. The
  handlers run only while the flow is suspended in a sleep of the waiting loop.
\<close>

fun handle_callbacks :: "oauth \<Rightarrow> callback_request list \<Rightarrow> oauth" where
  "handle_callbacks self [] = self"
| "handle_callbacks self (request # rest) = handle_callbacks (snd (oauth_callback self request)) rest"

text \<open>
  What the flow does from the waiting loop on (lines 144-158), as a trace of events.
\<close>

datatype flow_event = Slept nat | CleanedUp | PrintedTimeout

text \<open>
  \<open>for _ in range(timeout)\<close>: one sleep per element of the range, left by \<open>break\<close>
  as soon as the access token is set.
\<close>

fun wait_for_token ::
    "(nat \<Rightarrow> callback_request list) \<Rightarrow> nat list \<Rightarrow> oauth \<Rightarrow> flow_event list \<Rightarrow> oauth \<times> flow_event list" where
  "wait_for_token arrivals [] self trace = (self, trace)"
| "wait_for_token arrivals (k # ks) self trace =
     (let self1 = handle_callbacks self (arrivals k) in
      if truthy (access_token self1) then (self1, trace @ [Slept k])
      else wait_for_token arrivals ks self1 (trace @ [Slept k]))"

definition timeout :: nat where
  "timeout = 120"

text \<open>
  The environment of one authorization flow: the random \<open>state\<close> value, whether starting
  the local server raises (lines 123-142), and the callbacks that arrive during each tick.
\<close>

record twitch_auth_env =
  au_token_urlsafe :: string
  au_server_start :: "py_error option"
  au_arrivals :: "nat \<Rightarrow> callback_request list"

definition start_oauth_flow ::
    "twitch_auth_env \<Rightarrow> oauth \<Rightarrow> (py_error + bool) \<times> oauth \<times> flow_event list" where
  "start_oauth_flow env self =
     (let self0 = self\<lparr>state := PStr (au_token_urlsafe env)\<rparr> in
      case au_server_start env of
        Some e \<Rightarrow> (Inl e, self0, [])
      | None \<Rightarrow>
          let (self1, trace) = wait_for_token (au_arrivals env) [0 ..< timeout] self0 [] in
          if \<not> truthy (access_token self1)
          then (Inr False, self1, trace @ [CleanedUp, PrintedTimeout])
          else (Inr True, self1, trace @ [CleanedUp]))"

text \<open>The number of one-second sleeps in a trace.\<close>

definition ticks :: "flow_event list \<Rightarrow> nat" where
  "ticks trace = length (filter (\<lambda>ev. case ev of Slept k \<Rightarrow> True | _ \<Rightarrow> False) trace)"

section \<open>Fetching the song requests\<close>

text \<open>
  How a call ends: it returns a value, raises, or never returns. The last is what
  \<open>get_reward_redemptions\<close> does when the service keeps sending a pagination cursor
  (its \<open>while True\<close> loop).
\<close>

datatype 'a run = Returns 'a | Raises py_error | NeverReturns

text \<open>
  The Twitch side of one run: the authorization environment and the results of the three
  \<open>TwitchAPI\<close> calls (the HTTP requests of the read API), as functions of their arguments.
\<close>

record twitch_env =
  tw_auth :: twitch_auth_env
  tw_get_broadcaster_id :: "string \<Rightarrow> py_error + pyval"
  tw_get_custom_rewards :: "pyval \<Rightarrow> py_error + pydict list"
  tw_get_reward_redemptions :: "pyval \<Rightarrow> pyval \<Rightarrow> pydict list run"

definition REWARD_NAME :: string where
  "REWARD_NAME = ''song request bot''"

definition py_lower :: "pyval \<Rightarrow> py_error + string" where
  "py_lower v = (case v of PNone \<Rightarrow> Inl (AttributeError ''lower'') | PStr s \<Rightarrow> Inr (lower s))"

text \<open>
  The loop that looks for the reward (lines 290-294): the first reward whose title equals
  the name, case-insensitively.
\<close>

fun find_song_reward :: "pydict list \<Rightarrow> py_error + pydict option" where
  "find_song_reward [] = Inr None"
| "find_song_reward (reward # rest) =
     (case dict_item reward ''title'' of
        Inl e \<Rightarrow> Inl e
      | Inr title \<Rightarrow>
     (case py_lower title of
        Inl e \<Rightarrow> Inl e
      | Inr t \<Rightarrow> if t = lower REWARD_NAME then Inr (Some reward) else find_song_reward rest))"

text \<open>
  What \<open>get_song_requests_from_twitch\<close> hands to \<open>main\<close>, as a Python value: \<open>main\<close>
  tests it with \<open>if not result\<close>, which holds for \<open>None\<close> and not for a pair.
\<close>

datatype fetch_result = ResultNone | ResultPair "direct_request list" "search_request list"

fun result_truthy :: "fetch_result \<Rightarrow> bool" where
  "result_truthy ResultNone = False"
| "result_truthy (ResultPair song search) = True"

definition get_song_requests_from_twitch :: "twitch_env \<Rightarrow> string \<Rightarrow> fetch_result run" where
  "get_song_requests_from_twitch env broadcaster_login =
     (case start_oauth_flow (tw_auth env) oauth_init of
        (Inl e, oa, trace) \<Rightarrow> Raises e
      | (Inr False, oa, trace) \<Rightarrow> Returns (ResultPair [] [])
      | (Inr True, oa, trace) \<Rightarrow>
     (case tw_get_broadcaster_id env broadcaster_login of
        Inl e \<Rightarrow> Raises e
      | Inr broadcaster_id \<Rightarrow>
          if \<not> truthy broadcaster_id then Returns (ResultPair [] [])
          else
     (case tw_get_custom_rewards env broadcaster_id of
        Inl e \<Rightarrow> Raises e
      | Inr rewards \<Rightarrow>
     (case find_song_reward rewards of
        Inl e \<Rightarrow> Raises e
      | Inr None \<Rightarrow> Returns (ResultPair [] [])
      | Inr (Some song_reward) \<Rightarrow>
     (case dict_item song_reward ''id'' of
        Inl e \<Rightarrow> Raises e
      | Inr reward_id \<Rightarrow>
     (case tw_get_reward_redemptions env broadcaster_id reward_id of
        Raises e \<Rightarrow> Raises e
      | NeverReturns \<Rightarrow> NeverReturns
      | Returns redemptions \<Rightarrow>
     (case classify_all redemptions no_requests of
        Inl e \<Rightarrow> Raises e
      | Inr acc \<Rightarrow> Returns (ResultPair (song_requests acc) (search_requests acc)))))))))"

section \<open>Track List Assembler and Playlist Writer\<close>

text \<open>The parts of the Spotify responses that the code reads.\<close>

record track =
  tr_id :: string
  tr_uri :: string
  tr_name :: string
  tr_artists :: "string list"

record playlist =
  pl_id :: string
  pl_name :: string
  pl_url :: string

record search_result =
  res_track_id :: string
  res_track_uri :: string
  res_track_name :: string
  res_artist :: string
  res_user :: pyval
  res_search_query :: string
  res_method :: string

text \<open>
  The Spotify side of one run: the result of each client call. A search and a batch-add
  are given with the number of such calls made before, so that calls with equal
  arguments can end differently.
\<close>

record spotify_env =
  sp_current_user :: "py_error + string \<times> string"
  sp_user_playlist_create :: "string \<Rightarrow> string \<Rightarrow> bool \<Rightarrow> string \<Rightarrow> py_error + playlist"
  sp_search :: "nat \<Rightarrow> string \<Rightarrow> py_error + track list"
  sp_playlist_add_items :: "nat \<Rightarrow> string \<Rightarrow> string list \<Rightarrow> py_error option"
  sp_today :: string

text \<open>The calls made to the Spotify client, in order.\<close>

datatype sp_call =
    CurrentUser
  | UserPlaylistCreate string string bool string
  | Search string
  | PlaylistAddItems string "string list"

subsection \<open>Search Resolver (lines 382-404)\<close>

datatype search_message =
    Found string string string
  | NoResultsFor string
  | SearchErrorFor string py_error

record search_state =
  search_results :: "search_result list"
  searched :: "string list"
  search_printed :: "search_message list"

definition search_init :: search_state where
  "search_init = \<lparr>search_results = [], searched = [], search_printed = []\<rparr>"

text \<open>
  The body of the loop. Everything from the call on is inside \<open>try\<close>, so an exception
  of the call, and the IndexError of \<open>track['artists'][0]\<close> on an empty list, end in the
  \<open>except\<close> branch, which prints and goes on.
\<close>

definition search_one :: "spotify_env \<Rightarrow> search_request \<Rightarrow> search_state \<Rightarrow> search_state" where
  "search_one env search_req st =
     (let query = sq_search_query search_req;
          st1 = st\<lparr>searched := searched st @ [query]\<rparr>
      in case sp_search env (length (searched st)) query of
           Inl e \<Rightarrow> st1\<lparr>search_printed := search_printed st1 @ [SearchErrorFor (take 50 query) e]\<rparr>
         | Inr [] \<Rightarrow> st1\<lparr>search_printed := search_printed st1 @ [NoResultsFor (take 50 query)]\<rparr>
         | Inr (track # others) \<Rightarrow>
             (case tr_artists track of
                [] \<Rightarrow> st1\<lparr>search_printed := search_printed st1
                                 @ [SearchErrorFor (take 50 query) IndexError]\<rparr>
              | artist # other_artists \<Rightarrow>
                  st1\<lparr>search_results := search_results st1 @
                        [\<lparr>res_track_id = tr_id track, res_track_uri = tr_uri track,
                          res_track_name = tr_name track, res_artist = artist,
                          res_user = sq_user search_req, res_search_query = query,
                          res_method = ''search''\<rparr>],
                      search_printed := search_printed st1
                        @ [Found (tr_name track) artist (take 40 query)]\<rparr>))"

fun search_all :: "spotify_env \<Rightarrow> search_request list \<Rightarrow> search_state \<Rightarrow> search_state" where
  "search_all env [] st = st"
| "search_all env (search_req # rest) st = search_all env rest (search_one env search_req st)"

subsection \<open>Track List Assembler (lines 378, 409-412)\<close>

definition all_track_uris :: "direct_request list \<Rightarrow> search_result list \<Rightarrow> string list" where
  "all_track_uris song_reqs results =
     (let track_uris = map (\<lambda>req. ''spotify:track:'' @ dr_track_id req) song_reqs;
          search_track_uris = map res_track_uri results
      in dict_fromkeys_list (track_uris @ search_track_uris))"

subsection \<open>Playlist Writer (lines 414-429)\<close>

definition batch_size :: nat where
  "batch_size = 100"

text \<open>
  The writer's counters, and the batches it submitted with the outcome of each call
  (\<open>True\<close> when the call returned).
\<close>

record writer_state =
  added_count :: nat
  failed_tracks :: "string list"
  submitted :: "(string list \<times> bool) list"

definition writer_init :: writer_state where
  "writer_init = \<lparr>added_count = 0, failed_tracks = [], submitted = []\<rparr>"

text \<open>
  \<open>for i in range(0, len(all_track_uris), batch_size)\<close>: \<open>i\<close> runs over
  \<open>0, 100, 200, ...\<close> below the length; the batch is the slice \<open>[i:i + batch_size]\<close>.
\<close>

function add_batches ::
    "spotify_env \<Rightarrow> string \<Rightarrow> string list \<Rightarrow> nat \<Rightarrow> writer_state \<Rightarrow> writer_state" where
  "add_batches env playlist_id uris i st =
     (if i < length uris then
        let batch = take batch_size (drop i uris) in
        (case sp_playlist_add_items env (length (submitted st)) playlist_id batch of
           None \<Rightarrow>
             add_batches env playlist_id uris (i + batch_size)
               (st\<lparr>added_count := added_count st + length batch,
                   submitted := submitted st @ [(batch, True)]\<rparr>)
         | Some e \<Rightarrow>
             add_batches env playlist_id uris (i + batch_size)
               (st\<lparr>failed_tracks := failed_tracks st @ batch,
                   submitted := submitted st @ [(batch, False)]\<rparr>))
      else st)"
  by pat_completeness auto
termination
  by (relation "measure (\<lambda>(env, playlist_id, uris, i, st). length uris - i)")
     (auto simp: batch_size_def)

declare add_batches.simps [simp del]

subsection \<open>\<open>create_spotify_playlist\<close>\<close>

record summary =
  sm_playlist :: playlist
  sm_direct :: nat
  sm_search :: nat
  sm_added :: nat
  sm_failed :: "string list"

definition create_spotify_playlist ::
    "spotify_env \<Rightarrow> direct_request list \<Rightarrow> search_request list \<Rightarrow> string
       \<Rightarrow> (py_error + summary) \<times> sp_call list" where
  "create_spotify_playlist env song_reqs search_reqs broadcaster_name =
     (case sp_current_user env of
        Inl e \<Rightarrow> (Inl e, [CurrentUser])
      | Inr (user_id, display_name) \<Rightarrow>
          let playlist_name = broadcaster_name @ '' - Community Song Requests'';
              playlist_description =
                ''Community requested songs from Twitch channel points. Created on ''
                  @ sp_today env;
              create = UserPlaylistCreate user_id playlist_name True playlist_description
          in
          (case sp_user_playlist_create env user_id playlist_name True playlist_description of
             Inl e \<Rightarrow> (Inl e, [CurrentUser, create])
           | Inr pl \<Rightarrow>
               let found = search_all env search_reqs search_init;
                   uris = all_track_uris song_reqs (search_results found);
                   w = add_batches env (pl_id pl) uris 0 writer_init
               in (Inr \<lparr>sm_playlist = pl, sm_direct = length song_reqs,
                         sm_search = length (search_results found),
                         sm_added = added_count w, sm_failed = failed_tracks w\<rparr>,
                   [CurrentUser, create] @ map Search (searched found)
                     @ map (\<lambda>(batch, ok). PlaylistAddItems (pl_id pl) batch) (submitted w))))"

section \<open>\<open>main\<close>\<close>

datatype exit = NoChannelName | FetchFailed | NoValidRequests | PlaylistCreated summary

text \<open>
  \<open>main\<close> with the line typed at the prompt: how the run ends, and the calls it made to
  the Spotify client.
\<close>

definition main :: "string \<Rightarrow> twitch_env \<Rightarrow> spotify_env \<Rightarrow> exit run \<times> sp_call list" where
  "main input_line tw sp =
     (let broadcaster_login = strip input_line in
      if broadcaster_login = [] then (Returns NoChannelName, [])
      else
        (case get_song_requests_from_twitch tw broadcaster_login of
           Raises e \<Rightarrow> (Raises e, [])
         | NeverReturns \<Rightarrow> (NeverReturns, [])
         | Returns result \<Rightarrow>
             if \<not> result_truthy result then (Returns FetchFailed, [])
             else
               (case result of
                  ResultNone \<Rightarrow> (Raises TypeError, [])
                | ResultPair song_reqs search_reqs \<Rightarrow>
                    if song_reqs = [] \<and> search_reqs = [] then (Returns NoValidRequests, [])
                    else
                      (case create_spotify_playlist sp song_reqs search_reqs broadcaster_login of
                         (Inl e, calls) \<Rightarrow> (Raises e, calls)
                       | (Inr s, calls) \<Rightarrow> (Returns (PlaylistCreated s), calls)))))"

section \<open>Example inputs\<close>

text \<open>
  The redemptions of the spec's end-to-end scenario 1 (a Spotify link, a free text, an
  empty text), a redemption with a link to another site, and one without the
  \<open>user_input\<close> field.
\<close>

definition redemption_link :: pydict where
  "redemption_link =
     [''user_name'' \<mapsto> PStr ''ann'', ''redeemed_at'' \<mapsto> PStr ''2024-01-01T10:00:00Z'',
      ''status'' \<mapsto> PStr ''FULFILLED'',
      ''user_input'' \<mapsto> PStr ''https://open.spotify.com/track/abc123'']"

definition redemption_words :: pydict where
  "redemption_words =
     [''user_name'' \<mapsto> PStr ''bob'', ''redeemed_at'' \<mapsto> PStr ''2024-01-01T10:01:00Z'',
      ''status'' \<mapsto> PStr ''UNFULFILLED'', ''user_input'' \<mapsto> PStr ''please play freebird'']"

definition redemption_blank :: pydict where
  "redemption_blank =
     [''user_name'' \<mapsto> PStr ''cat'', ''redeemed_at'' \<mapsto> PStr ''2024-01-01T10:02:00Z'',
      ''status'' \<mapsto> PStr ''CANCELED'', ''user_input'' \<mapsto> PStr []]"

definition redemption_other_site :: pydict where
  "redemption_other_site =
     [''user_name'' \<mapsto> PStr ''dan'', ''redeemed_at'' \<mapsto> PStr ''2024-01-01T10:03:00Z'',
      ''status'' \<mapsto> PStr ''FULFILLED'', ''user_input'' \<mapsto> PStr ''see WWW.youtube.com/watch'']"

definition redemption_no_input :: pydict where
  "redemption_no_input =
     [''user_name'' \<mapsto> PStr ''eve'', ''redeemed_at'' \<mapsto> PStr ''2024-01-01T10:04:00Z'',
      ''status'' \<mapsto> PStr ''FULFILLED'']"

text \<open>A redemption with a link to a track of another music service.\<close>

definition redemption_other_service :: pydict where
  "redemption_other_service =
     [''user_name'' \<mapsto> PStr ''fay'', ''redeemed_at'' \<mapsto> PStr ''2024-01-01T10:05:00Z'',
      ''status'' \<mapsto> PStr ''FULFILLED'',
      ''user_input'' \<mapsto> PStr ''https://www.deezer.com/track/12345'']"

section \<open>Reference notions for the resolver and the writer\<close>

text \<open>
  The spec's partition of a sequence into consecutive batches of at most \<open>n\<close> items.
\<close>

function chunks :: "nat \<Rightarrow> 'a list \<Rightarrow> 'a list list" where
  "chunks n xs = (if n = 0 \<or> xs = [] then [] else take n xs # chunks n (drop n xs))"
  by pat_completeness auto
termination
  by (relation "measure (\<lambda>(n, xs). length xs)") auto

declare chunks.simps [simp del]

text \<open>The URIs of the batches whose call returned, and of those whose call raised.\<close>

definition added_tracks :: "writer_state \<Rightarrow> string list" where
  "added_tracks w = concat (map fst (filter (\<lambda>(batch, ok). ok) (submitted w)))"

definition raised_tracks :: "writer_state \<Rightarrow> string list" where
  "raised_tracks w = concat (map fst (filter (\<lambda>(batch, ok). \<not> ok) (submitted w)))"

text \<open>
  The SearchResult of one query, given as the \<open>k\<close>-th search of the run: the first item of
  a non-empty result list with its first artist; nothing when the call raises or the
  list is empty.
\<close>

definition search_hit :: "spotify_env \<Rightarrow> nat \<Rightarrow> search_request \<Rightarrow> search_result option" where
  "search_hit env k search_req =
     (case sp_search env k (sq_search_query search_req) of
        Inl e \<Rightarrow> None
      | Inr [] \<Rightarrow> None
      | Inr (track # others) \<Rightarrow>
          (case tr_artists track of
             [] \<Rightarrow> None
           | artist # other_artists \<Rightarrow>
               Some \<lparr>res_track_id = tr_id track, res_track_uri = tr_uri track,
                     res_track_name = tr_name track, res_artist = artist,
                     res_user = sq_user search_req,
                     res_search_query = sq_search_query search_req,
                     res_method = ''search''\<rparr>))"

text \<open>The writer's loop from its initial counters (lines 415-429).\<close>

definition add_all_tracks :: "spotify_env \<Rightarrow> string \<Rightarrow> string list \<Rightarrow> writer_state" where
  "add_all_tracks env playlist_id uris = add_batches env playlist_id uris 0 writer_init"

text \<open>
  A Spotify client whose first search raises, whose second search finds nothing and
  whose second batch-add raises; three search requests; and a sequence of 150 different
  URIs.
\<close>

definition spotify_flaky :: spotify_env where
  "spotify_flaky =
     \<lparr>sp_current_user = Inr (''user1'', ''User One''),
      sp_user_playlist_create =
        (\<lambda>user name public description.
           Inr \<lparr>pl_id = ''pl1'', pl_name = name, pl_url = ''https://open.spotify.com/playlist/pl1''\<rparr>),
      sp_search =
        (\<lambda>k query.
           if k = 0 then Inl (ServiceError ''timeout'')
           else if k = 1 then Inr []
           else Inr [\<lparr>tr_id = query, tr_uri = ''spotify:track:'' @ query, tr_name = query,
                      tr_artists = [''artist'']\<rparr>]),
      sp_playlist_add_items =
        (\<lambda>k playlist_id batch. if k = 1 then Some (ServiceError ''502'') else None),
      sp_today = ''2024-01-01''\<rparr>"

definition query_request :: "string \<Rightarrow> search_request" where
  "query_request q =
     \<lparr>sq_search_query = q, sq_user = PStr ''bob'', sq_redeemed_at = PStr ''2024-01-01T10:01:00Z'',
      sq_status = PStr ''UNFULFILLED''\<rparr>"

definition link_request :: "string \<Rightarrow> direct_request" where
  "link_request tid =
     \<lparr>dr_track_id = tid, dr_user = PStr ''ann'', dr_redeemed_at = PStr ''2024-01-01T10:00:00Z'',
      dr_status = PStr ''FULFILLED'', dr_original_input = PStr (''spotify:track:'' @ tid),
      dr_method = ''direct_url''\<rparr>"

definition uris_150 :: "string list" where
  "uris_150 = map (\<lambda>n. ''spotify:track:'' @ replicate n CHR ''a'') [0 ..< 150]"

section \<open>Reference notions for the authorization flow\<close>

text \<open>
  The object after the first \<open>n\<close> ticks of the wait, had the loop not been left: the
  callbacks of the ticks \<open>0, ..., n - 1\<close> handled in order, from the object with its
  fresh \<open>state\<close> value.
\<close>

definition after_ticks :: "twitch_auth_env \<Rightarrow> oauth \<Rightarrow> nat \<Rightarrow> oauth" where
  "after_ticks env self n =
     foldl (\<lambda>s k. handle_callbacks s (au_arrivals env k))
       (self\<lparr>state := PStr (au_token_urlsafe env)\<rparr>) [0 ..< n]"

text \<open>
  A callback that reports a denied authorization (an \<open>error\<close> parameter) or whose
  \<open>state\<close> parameter is not the flow's value.
\<close>

definition denied_or_mismatched :: "string \<Rightarrow> callback_request \<Rightarrow> bool" where
  "denied_or_mismatched token request =
     (cb_params request ''error'' \<noteq> None
      \<or> params_get (cb_params request) ''state'' \<noteq> PStr token)"

text \<open>
  Example environments: an authorization that is denied once, answered once with a wrong
  \<open>state\<close> and then left to time out; and a run in which the authorization succeeds in
  the third tick and the reward has the three redemptions of scenario 1. The other two
  differ from the latter in the broadcaster lookup and in the rewards.
\<close>

definition auth_denied :: twitch_auth_env where
  "auth_denied =
     \<lparr>au_token_urlsafe = ''s3cr3t'',
      au_server_start = None,
      au_arrivals =
        (\<lambda>k. if k = 3
             then [\<lparr>cb_params = [''error'' \<mapsto> ''access_denied'', ''state'' \<mapsto> ''s3cr3t''],
                    cb_token_response = StatusOther ''unused''\<rparr>]
             else if k = 5
             then [\<lparr>cb_params = [''code'' \<mapsto> ''c0de'', ''state'' \<mapsto> ''forged''],
                    cb_token_response = Status200 (PStr ''tok'') (PStr ''ref'')\<rparr>]
             else [])\<rparr>"

definition auth_granted :: twitch_auth_env where
  "auth_granted =
     \<lparr>au_token_urlsafe = ''s3cr3t'',
      au_server_start = None,
      au_arrivals =
        (\<lambda>k. if k = 2
             then [\<lparr>cb_params = [''code'' \<mapsto> ''c0de'', ''state'' \<mapsto> ''s3cr3t''],
                    cb_token_response = Status200 (PStr ''tok'') (PStr ''ref'')\<rparr>]
             else [])\<rparr>"

definition twitch_denied :: twitch_env where
  "twitch_denied =
     \<lparr>tw_auth = auth_denied,
      tw_get_broadcaster_id = (\<lambda>login. Inr (PStr ''42'')),
      tw_get_custom_rewards =
        (\<lambda>b. Inr [[''title'' \<mapsto> PStr ''Song Request Bot'', ''id'' \<mapsto> PStr ''r1'']]),
      tw_get_reward_redemptions =
        (\<lambda>b r. Returns [redemption_link, redemption_words, redemption_blank])\<rparr>"

definition twitch_granted :: twitch_env where
  "twitch_granted =
     \<lparr>tw_auth = auth_granted,
      tw_get_broadcaster_id = (\<lambda>login. Inr (PStr ''42'')),
      tw_get_custom_rewards =
        (\<lambda>b. Inr [[''title'' \<mapsto> PStr ''Hydrate'', ''id'' \<mapsto> PStr ''r0''],
                  [''title'' \<mapsto> PStr ''Song Request Bot'', ''id'' \<mapsto> PStr ''r1'']]),
      tw_get_reward_redemptions =
        (\<lambda>b r. Returns [redemption_link, redemption_words, redemption_blank])\<rparr>"

definition twitch_no_broadcaster :: twitch_env where
  "twitch_no_broadcaster = twitch_granted\<lparr>tw_get_broadcaster_id := (\<lambda>login. Inr PNone)\<rparr>"

definition twitch_no_reward :: twitch_env where
  "twitch_no_reward =
     twitch_granted\<lparr>tw_get_custom_rewards :=
       (\<lambda>b. Inr [[''title'' \<mapsto> PStr ''Hydrate'', ''id'' \<mapsto> PStr ''r0'']])\<rparr>"

definition twitch_only_blank :: twitch_env where
  "twitch_only_blank =
     twitch_granted\<lparr>tw_get_reward_redemptions := (\<lambda>b r. Returns [redemption_blank])\<rparr>"

section \<open>Lemmas: the parser\<close>

lemma prefix_append_drop:
  "prefix (xs @ ys) zs = (prefix xs zs \<and> prefix ys (drop (length xs) zs))"
proof (induction xs arbitrary: zs)
  case Nil
  show ?case by simp
next
  case (Cons x xs)
  show ?case by (cases zs) (simp_all add: Cons.IH)
qed

lemma match_here_lits:
  "match_here (map Chr pre @ p) s cap =
     (if prefix pre s then match_here p (drop (length pre) s) cap else None)"
proof (induction pre arbitrary: s)
  case Nil
  show ?case by simp
next
  case (Cons c pre)
  show ?case by (cases s) (simp_all add: Cons.IH)
qed

lemma rev_upt_from_one: "0 < m \<Longrightarrow> rev [Suc 0 ..< Suc m] = m # rev [Suc 0 ..< m]"
  by simp

lemma match_here_group:
  "match_here [GroupAlnumPlus] s cap =
     (if takeWhile is_alnum s = [] then None else Some (takeWhile is_alnum s))"
proof (cases "takeWhile is_alnum s = []")
  case True
  then show ?thesis by simp
next
  case False
  then have m: "0 < length (takeWhile is_alnum s)" by simp
  have t: "take (length (takeWhile is_alnum s)) s = takeWhile is_alnum s"
    by (metis append_eq_conv_conj takeWhile_dropWhile_id)
  show ?thesis using False t by (simp add: rev_upt_from_one [OF m] del: upt_Suc)
qed

lemma match_here_lit_group:
  "match_here (map Chr pre @ [GroupAlnumPlus]) s cap = id_after pre s"
  by (simp add: match_here_lits match_here_group id_after_def del: match_here.simps(4))

lemma re_search_lit_group:
  "re_search (map Chr pre @ [GroupAlnumPlus]) s = first_id [pre] s"
proof (induction s)
  case Nil
  show ?case by (simp add: match_here_lit_group id_after_def)
next
  case (Cons x xs)
  show ?case
    by (simp add: match_here_lit_group Cons.IH split: option.splits)
qed

lemma id_after_append:
  "id_after (a @ b) s = (if prefix a s then id_after b (drop (length a) s) else None)"
  by (simp add: id_after_def prefix_append_drop add.commute)

lemma id_after_Cons:
  "id_after (c # pre) s =
     (case s of [] \<Rightarrow> None | x # xs \<Rightarrow> if x = c then id_after pre xs else None)"
  by (cases s) (simp_all add: id_after_def)

lemma match_here_opt_lit_group:
  assumes "pre \<noteq> []" and "hd pre \<noteq> c"
  shows "match_here (OptChr c # map Chr pre @ [GroupAlnumPlus]) u cap =
     (case List.map_filter (\<lambda>p. id_after p u) [c # pre, pre] of
        g # _ \<Rightarrow> Some g | [] \<Rightarrow> None)"
proof (cases u)
  case Nil
  then show ?thesis
    by (simp add: match_here_lit_group id_after_Cons List.map_filter_simps split: option.splits)
next
  case (Cons x xs)
  obtain p ps where pre: "pre = p # ps" using assms(1) by (cases pre) auto
  with assms(2) have pc: "p \<noteq> c" by simp
  show ?thesis
  proof (cases "x = c")
    case True
    have "id_after pre (c # xs) = None" using pc by (simp add: pre id_after_Cons)
    then show ?thesis using Cons True
      by (simp add: match_here_lit_group id_after_Cons List.map_filter_simps
               split: option.splits)
  next
    case False
    then show ?thesis using Cons
      by (simp add: match_here_lit_group id_after_Cons List.map_filter_simps
               split: option.splits)
  qed
qed

lemma match_here_url:
  "match_here (map Chr ''http'' @ [OptChr CHR ''s''] @ map Chr ''://open.spotify.com/track/''
                 @ [GroupAlnumPlus]) s cap =
     (case List.map_filter (\<lambda>pre. id_after pre s)
             [''https://open.spotify.com/track/'', ''http://open.spotify.com/track/''] of
        g # _ \<Rightarrow> Some g | [] \<Rightarrow> None)"
proof -
  have a: "id_after ''https://open.spotify.com/track/'' s =
           (if prefix ''http'' s then id_after ''s://open.spotify.com/track/'' (drop (length ''http'') s) else None)"
    using id_after_append [of "''http''" "''s://open.spotify.com/track/''" s] by simp
  have b: "id_after ''http://open.spotify.com/track/'' s =
           (if prefix ''http'' s then id_after ''://open.spotify.com/track/'' (drop (length ''http'') s) else None)"
    using id_after_append [of "''http''" "''://open.spotify.com/track/''" s] by simp
  have o: "match_here (OptChr CHR ''s'' # map Chr ''://open.spotify.com/track/'' @ [GroupAlnumPlus])
             (drop (length ''http'') s) cap =
           (case List.map_filter (\<lambda>p. id_after p (drop (length ''http'') s))
              [''s://open.spotify.com/track/'', ''://open.spotify.com/track/''] of
              g # _ \<Rightarrow> Some g | [] \<Rightarrow> None)"
    by (rule match_here_opt_lit_group) simp_all
  have l: "match_here (map Chr ''http'' @ [OptChr CHR ''s''] @ map Chr ''://open.spotify.com/track/''
                 @ [GroupAlnumPlus]) s cap =
           (if prefix ''http'' s
            then match_here (OptChr CHR ''s'' # map Chr ''://open.spotify.com/track/'' @ [GroupAlnumPlus])
                   (drop (length ''http'') s) cap
            else None)"
    using match_here_lits [of "''http''"
        "[OptChr CHR ''s''] @ map Chr ''://open.spotify.com/track/'' @ [GroupAlnumPlus]" s cap]
    by simp
  show ?thesis
    unfolding l o by (simp add: List.map_filter_simps a b split: option.splits)
qed

lemma re_search_url:
  "re_search (map Chr ''http'' @ [OptChr CHR ''s''] @ map Chr ''://open.spotify.com/track/''
                 @ [GroupAlnumPlus]) s =
   first_id [''https://open.spotify.com/track/'', ''http://open.spotify.com/track/''] s"
proof (induction s)
  case Nil
  show ?case unfolding re_search.simps match_here_url
    by (simp add: id_after_def List.map_filter_simps)
next
  case (Cons x xs)
  show ?case unfolding re_search.simps match_here_url Cons.IH
    by (simp split: list.splits)
qed

section \<open>Lemmas: the assembler\<close>

lemma fromkeys_acc:
  "distinct acc \<Longrightarrow> fromkeys acc xs = acc @ keep_first (filter (\<lambda>y. y \<notin> set acc) xs)"
proof (induction xs arbitrary: acc)
  case Nil
  then show ?case by simp
next
  case (Cons x xs)
  show ?case
  proof (cases "x \<in> set acc")
    case True
    with Cons show ?thesis by simp
  next
    case False
    have d: "distinct (acc @ [x])" using Cons.prems False by simp
    have f: "filter (\<lambda>y. y \<notin> set (acc @ [x])) xs
             = filter (\<lambda>y. y \<noteq> x) (filter (\<lambda>y. y \<notin> set acc) xs)"
      by (induction xs) auto
    show ?thesis using False Cons.IH [OF d] f by simp
  qed
qed

lemma dict_fromkeys_keep_first: "dict_fromkeys_list xs = keep_first xs"
  by (simp add: dict_fromkeys_list_def fromkeys_acc)

lemma remdups_snoc: "remdups (ys @ [x]) = filter (\<lambda>y. y \<noteq> x) (remdups ys) @ [x]"
  by (induction ys) auto

text \<open>
  The library's \<open>remdups\<close> keeps the last occurrence of each element; between two
  reversals it keeps the first.
\<close>

lemma keep_first_remdups: "keep_first xs = rev (remdups (rev xs))"
proof (induction xs rule: keep_first.induct)
  case 1
  show ?case by simp
next
  case (2 x xs)
  have "rev (remdups (rev (x # xs))) = x # rev (remdups (rev (filter (\<lambda>y. y \<noteq> x) xs)))"
    by (simp add: remdups_snoc remdups_filter rev_filter)
  with 2 show ?case by simp
qed

lemma distinct_keep_first: "distinct (keep_first xs)"
  by (simp add: keep_first_remdups)

lemma set_keep_first: "set (keep_first xs) = set xs"
  by (simp add: keep_first_remdups)

lemma id_after_alnum:
  "id_after pre s = Some g \<Longrightarrow> g \<noteq> [] \<and> list_all is_alnum g"
  by (auto simp: id_after_def list_all_iff split: if_splits dest: set_takeWhileD)

lemma map_filter_hd_in:
  "List.map_filter f xs = g # gs \<Longrightarrow> \<exists>x \<in> set xs. f x = Some g"
  by (induction xs) (auto simp: List.map_filter_simps split: option.splits)

lemma first_id_alnum:
  "first_id pres s = Some g \<Longrightarrow> g \<noteq> [] \<and> list_all is_alnum g"
proof (induction s)
  case Nil
  then show ?case by simp
next
  case (Cons x xs)
  show ?case
  proof (cases "List.map_filter (\<lambda>pre. id_after pre (x # xs)) pres")
    case Nil
    with Cons show ?thesis by simp
  next
    case (Cons h hs)
    with Cons.prems have "h = g" by simp
    with Cons map_filter_hd_in [of "\<lambda>pre. id_after pre (x # xs)" pres h hs]
    obtain pre where "id_after pre (x # xs) = Some g" by auto
    then show ?thesis by (rule id_after_alnum)
  qed
qed

lemma parse_spotify_url_amended:
  "parse_spotify_url v = ref_parse_amended ''spotify'' v"
proof (cases v)
  case PNone
  then show ?thesis by (simp add: parse_spotify_url_def ref_parse_amended_def)
next
  case (PStr t)
  have e: "first_of [first_id a [], first_id b [], first_id c []] = None" for a b c
    by (simp add: first_of_def List.map_filter_simps)
  have p: "search_patterns patterns t =
        first_of
            [ first_id [''https://open.spotify.com/track/'', ''http://open.spotify.com/track/''] t,
              first_id [''spotify:track:''] t,
              first_id [''track/''] t ]"
    unfolding patterns_def search_patterns.simps re_search_url re_search_lit_group
    by (simp add: first_of_def List.map_filter_simps split: option.splits)
  show ?thesis using PStr e p
    by (simp add: parse_spotify_url_def ref_parse_amended_def)
qed

lemma parse_spotify_url_alnum:
  "parse_spotify_url v = Some g \<Longrightarrow> g \<noteq> [] \<and> list_all is_alnum g"
  unfolding parse_spotify_url_amended ref_parse_amended_def first_of_def
  by (auto simp: List.map_filter_simps split: pyval.splits option.splits dest: first_id_alnum)

section \<open>Lemmas: the classifier\<close>

lemma str_contains_sublist: "str_contains sub s = sublist sub s"
  by (induction s) (simp_all add: sublist_Cons_right)

lemma classify_text_url:
  "url_shaped s \<Longrightarrow>
   classify_text r (PStr s) acc =
     Inr (acc\<lparr>diagnostics := diagnostics acc @ [SkippingNonSpotifyURL (take 50 s)]\<rparr>)"
  by (simp add: classify_text_def url_shaped_def str_contains_sublist)

lemma classify_no_track:
  "parse_spotify_url (dict_get r ''user_input'' (PStr [])) = None \<Longrightarrow>
   classify r acc = classify_text r (dict_get r ''user_input'' (PStr [])) acc"
  by (simp add: classify_def)

lemma classify_track:
  "parse_spotify_url (dict_get r ''user_input'' (PStr [])) = Some tid \<Longrightarrow>
   classify r acc = append_song_request r (dict_get r ''user_input'' (PStr [])) tid acc"
  using parse_spotify_url_alnum [of "dict_get r ''user_input'' (PStr [])" tid]
  by (simp add: classify_def)

lemma append_song_request_record:
  assumes "redemption_record r"
  shows "\<exists>d. append_song_request r v tid acc
              = Inr (acc\<lparr>song_requests := song_requests acc @ [d]\<rparr>)"
proof -
  from assms obtain u a st where
    "r ''user_name'' = Some u" "r ''redeemed_at'' = Some a" "r ''status'' = Some st"
    by (auto simp: redemption_record_def)
  then have "append_song_request r v tid acc =
     Inr (acc\<lparr>song_requests := song_requests acc @
            [\<lparr>dr_track_id = tid, dr_user = u, dr_redeemed_at = a, dr_status = st,
              dr_original_input = v, dr_method = ''direct_url''\<rparr>]\<rparr>)"
    by (simp add: append_song_request_def dict_item_def)
  then show ?thesis by blast
qed

lemma classify_text_search:
  assumes "\<not> url_shaped s" and "strip s \<noteq> []"
    and "r ''user_name'' = Some u" and "r ''redeemed_at'' = Some a" and "r ''status'' = Some st"
  shows "classify_text r (PStr s) acc =
     Inr (acc\<lparr>search_requests := search_requests acc @
            [\<lparr>sq_search_query = s, sq_user = u, sq_redeemed_at = a, sq_status = st\<rparr>]\<rparr>)"
  using assms by (simp add: classify_text_def url_shaped_def str_contains_sublist dict_item_def)

lemma classify_text_empty:
  assumes "\<not> url_shaped s" and "strip s = []" and "r ''user_name'' = Some u"
  shows "classify_text r (PStr s) acc =
     Inr (acc\<lparr>diagnostics := diagnostics acc @ [EmptyInputFrom u]\<rparr>)"
  using assms by (simp add: classify_text_def url_shaped_def str_contains_sublist dict_item_def)

lemma dict_get_record:
  "redemption_record r \<Longrightarrow> \<exists>s. dict_get r ''user_input'' (PStr []) = PStr s"
  by (cases "r ''user_input''")
     (auto simp: redemption_record_def dict_get_def intro: pyval.exhaust)

lemma classify_text_record:
  assumes "redemption_record r"
  shows "(\<exists>q. classify_text r (PStr s) acc
               = Inr (acc\<lparr>search_requests := search_requests acc @ [q]\<rparr>))
   \<or> (\<exists>m. classify_text r (PStr s) acc
               = Inr (acc\<lparr>diagnostics := diagnostics acc @ [m]\<rparr>))"
proof -
  from assms obtain u a st where
    f: "r ''user_name'' = Some u" "r ''redeemed_at'' = Some a" "r ''status'' = Some st"
    by (auto simp: redemption_record_def)
  consider "url_shaped s" | "\<not> url_shaped s" "strip s \<noteq> []" | "\<not> url_shaped s" "strip s = []"
    by blast
  then show ?thesis
  proof cases
    case 1
    from classify_text_url [OF 1, of r acc] show ?thesis by blast
  next
    case 2
    from classify_text_search [of s r u a st acc] 2 f show ?thesis by blast
  next
    case 3
    from classify_text_empty [of s r u acc] 3 f(1) show ?thesis by blast
  qed
qed

lemma classify_record_cases:
  assumes "redemption_record r"
  shows "(\<exists>d. classify r acc = Inr (acc\<lparr>song_requests := song_requests acc @ [d]\<rparr>))
   \<or> (\<exists>q. classify r acc = Inr (acc\<lparr>search_requests := search_requests acc @ [q]\<rparr>))
   \<or> (\<exists>m. classify r acc = Inr (acc\<lparr>diagnostics := diagnostics acc @ [m]\<rparr>))"
proof (cases "parse_spotify_url (dict_get r ''user_input'' (PStr []))")
  case None
  from dict_get_record [OF assms] obtain s where s: "dict_get r ''user_input'' (PStr []) = PStr s"
    by blast
  show ?thesis
    using classify_text_record [OF assms, of s acc] None by (simp add: classify_no_track s)
next
  case (Some tid)
  then show ?thesis
    using append_song_request_record [OF assms, of "dict_get r ''user_input'' (PStr [])" tid acc]
    by (simp add: classify_track)
qed

lemma one_direct: "exactly_one_outcome acc (acc\<lparr>song_requests := song_requests acc @ [d]\<rparr>)"
  by (simp add: exactly_one_outcome_def emitted_direct_def emitted_search_def discarded_def)

lemma one_search: "exactly_one_outcome acc (acc\<lparr>search_requests := search_requests acc @ [q]\<rparr>)"
  by (simp add: exactly_one_outcome_def emitted_direct_def emitted_search_def discarded_def)

lemma one_discarded: "exactly_one_outcome acc (acc\<lparr>diagnostics := diagnostics acc @ [m]\<rparr>)"
  by (simp add: exactly_one_outcome_def emitted_direct_def emitted_search_def discarded_def)

lemma exactly_one_total:
  "exactly_one_outcome acc acc' \<Longrightarrow>
   length (song_requests acc') + length (search_requests acc') + length (diagnostics acc')
     = Suc (length (song_requests acc) + length (search_requests acc) + length (diagnostics acc))"
  unfolding exactly_one_outcome_def emitted_direct_def emitted_search_def discarded_def
  by (metis (no_types, lifting) add_Suc add_Suc_right length_append_singleton)

lemma classify_record_one:
  assumes "redemption_record r"
  shows "\<exists>acc'. classify r acc = Inr acc' \<and> exactly_one_outcome acc acc'"
  using classify_record_cases [OF assms, of acc] one_direct one_search one_discarded
  by metis

lemma classify_all_records:
  "\<forall>r \<in> set rs. redemption_record r \<Longrightarrow>
   \<exists>acc'. classify_all rs acc = Inr acc'
     \<and> length (song_requests acc') + length (search_requests acc') + length (diagnostics acc')
        = length (song_requests acc) + length (search_requests acc) + length (diagnostics acc)
          + length rs"
proof (induction rs arbitrary: acc)
  case Nil
  then show ?case by simp
next
  case (Cons r rs)
  then have "redemption_record r" by simp
  from classify_record_one [OF this, of acc] obtain acc1 where
    c: "classify r acc = Inr acc1" and o: "exactly_one_outcome acc acc1" by blast
  from Cons have "\<forall>r \<in> set rs. redemption_record r" by simp
  from Cons.IH [OF this, of acc1] obtain acc2 where
    "classify_all rs acc1 = Inr acc2"
    "length (song_requests acc2) + length (search_requests acc2) + length (diagnostics acc2)
        = length (song_requests acc1) + length (search_requests acc1) + length (diagnostics acc1)
          + length rs" by blast
  with c exactly_one_total [OF o] show ?case by simp
qed

lemma append_song_request_search:
  "append_song_request r v tid acc = Inr acc' \<Longrightarrow> search_requests acc' = search_requests acc"
  by (auto simp: append_song_request_def split: sum.splits)

lemma classify_text_queries:
  assumes "classify_text r v acc = Inr acc'" and "q \<in> set (search_requests acc')"
  shows "q \<in> set (search_requests acc)
     \<or> (v = PStr (sq_search_query q) \<and> \<not> url_shaped (sq_search_query q)
         \<and> strip (sq_search_query q) \<noteq> [])"
proof (cases v)
  case PNone
  with assms show ?thesis by (simp add: classify_text_def)
next
  case (PStr s)
  show ?thesis
  proof (cases "url_shaped s")
    case True
    from assms show ?thesis unfolding PStr classify_text_url [OF True] by auto
  next
    case False
    with assms show ?thesis unfolding PStr
      by (auto simp: classify_text_def url_shaped_def str_contains_sublist
               split: if_splits sum.splits)
  qed
qed

lemma classify_queries:
  assumes "classify r acc = Inr acc'" and "q \<in> set (search_requests acc')"
  shows "q \<in> set (search_requests acc)
     \<or> (\<not> url_shaped (sq_search_query q) \<and> strip (sq_search_query q) \<noteq> []
         \<and> parse_spotify_url (PStr (sq_search_query q)) = None)"
proof (cases "parse_spotify_url (dict_get r ''user_input'' (PStr []))")
  case None
  with assms classify_text_queries [of r "dict_get r ''user_input'' (PStr [])" acc acc' q]
  show ?thesis by (auto simp: classify_no_track)
next
  case (Some tid)
  with assms append_song_request_search [of r "dict_get r ''user_input'' (PStr [])" tid acc acc']
  show ?thesis by (simp add: classify_track)
qed

lemma classify_all_queries:
  "classify_all rs acc = Inr acc' \<Longrightarrow> q \<in> set (search_requests acc') \<Longrightarrow>
   q \<in> set (search_requests acc)
     \<or> (\<not> url_shaped (sq_search_query q) \<and> strip (sq_search_query q) \<noteq> []
         \<and> parse_spotify_url (PStr (sq_search_query q)) = None)"
proof (induction rs arbitrary: acc)
  case Nil
  then show ?case by simp
next
  case (Cons r rs)
  from Cons.prems(1) obtain acc1 where
    c: "classify r acc = Inr acc1" and a: "classify_all rs acc1 = Inr acc'"
    by (auto split: sum.splits)
  from Cons.IH [OF a Cons.prems(2)] classify_queries [OF c, of q] show ?case by blast
qed

section \<open>Lemmas: the writer and the resolver\<close>

lemma chunks_Nil: "chunks n [] = []"
  by (subst chunks.simps) simp

lemma chunks_step: "0 < n \<Longrightarrow> xs \<noteq> [] \<Longrightarrow> chunks n xs = take n xs # chunks n (drop n xs)"
  by (subst chunks.simps) simp

lemma concat_chunks: "0 < n \<Longrightarrow> concat (chunks n xs) = xs"
proof (induction n xs rule: chunks.induct)
  case (1 n xs)
  show ?case
  proof (cases "xs = []")
    case True
    then show ?thesis by (simp add: chunks_Nil)
  next
    case False
    with 1 show ?thesis by (simp add: chunks_step)
  qed
qed

lemma chunks_sizes: "0 < n \<Longrightarrow> b \<in> set (chunks n xs) \<Longrightarrow> b \<noteq> [] \<and> length b \<le> n"
proof (induction n xs rule: chunks.induct)
  case (1 n xs)
  show ?case
  proof (cases "xs = []")
    case True
    with 1 show ?thesis by (simp add: chunks_Nil)
  next
    case False
    with 1 show ?thesis by (auto simp: chunks_step)
  qed
qed

lemma chunks_150:
  assumes "length xs = 150"
  shows "chunks 100 xs = [take 100 xs, drop 100 xs]"
proof -
  have a: "xs \<noteq> []" using assms by auto
  have b: "drop 100 xs \<noteq> []" using assms by auto
  have c: "drop 100 (drop 100 xs) = []" using assms by simp
  have d: "take 100 (drop 100 xs) = drop 100 xs" using assms by simp
  show ?thesis
    using chunks_step [of 100 xs] chunks_step [of 100 "drop 100 xs"] a b
    by (simp only: c d chunks_Nil) simp
qed

lemma submitted_add_batches:
  "map fst (submitted (add_batches env pid uris i st))
     = map fst (submitted st) @ chunks batch_size (drop i uris)"
proof (induction env pid uris i st rule: add_batches.induct)
  case (1 env pid uris i st)
  show ?case
  proof (cases "i < length uris")
    case False
    then have u: "add_batches env pid uris i st = st"
      by (subst add_batches.simps) simp
    from False show ?thesis unfolding u by (simp add: chunks_Nil)
  next
    case True
    then have ne: "drop i uris \<noteq> []" by simp
    have ch: "chunks batch_size (drop i uris)
        = take batch_size (drop i uris) # chunks batch_size (drop (i + batch_size) uris)"
      using chunks_step [of batch_size "drop i uris"] ne
      by (simp add: batch_size_def add.commute)
    show ?thesis
    proof (cases "sp_playlist_add_items env (length (submitted st)) pid
                    (take batch_size (drop i uris))")
      case None
      from "1.IH"(1) [OF True refl None] True None show ?thesis
        by (subst add_batches.simps) (simp add: ch Let_def)
    next
      case (Some e)
      from "1.IH"(2) [OF True refl Some] True Some show ?thesis
        by (subst add_batches.simps) (simp add: ch Let_def)
    qed
  qed
qed

lemma outcomes_add_batches:
  "(\<forall>k < length (submitted st).
       snd (submitted st ! k) = (sp_playlist_add_items env k pid (fst (submitted st ! k)) = None))
   \<Longrightarrow> k < length (submitted (add_batches env pid uris i st))
   \<Longrightarrow> snd (submitted (add_batches env pid uris i st) ! k)
       = (sp_playlist_add_items env k pid (fst (submitted (add_batches env pid uris i st) ! k))
            = None)"
proof (induction env pid uris i st rule: add_batches.induct)
  case (1 env pid uris i st)
  show ?case
  proof (cases "i < length uris")
    case False
    then have u: "add_batches env pid uris i st = st"
      by (subst add_batches.simps) simp
    from "1.prems" show ?thesis unfolding u by simp
  next
    case True
    show ?thesis
    proof (cases "sp_playlist_add_items env (length (submitted st)) pid
                    (take batch_size (drop i uris))")
      case None
      let ?st = "st\<lparr>added_count := added_count st + length (take batch_size (drop i uris)),
                     submitted := submitted st @ [(take batch_size (drop i uris), True)]\<rparr>"
      have u: "add_batches env pid uris i st = add_batches env pid uris (i + batch_size) ?st"
        using True None by (subst add_batches.simps) (simp add: Let_def)
      have inv: "\<forall>k < length (submitted ?st).
         snd (submitted ?st ! k) = (sp_playlist_add_items env k pid (fst (submitted ?st ! k)) = None)"
        using "1.prems"(1) None by (auto simp: nth_append less_Suc_eq)
      from "1.IH"(1) [OF True refl None inv] "1.prems"(2) show ?thesis
        unfolding u by simp
    next
      case (Some e)
      let ?st = "st\<lparr>failed_tracks := failed_tracks st @ take batch_size (drop i uris),
                     submitted := submitted st @ [(take batch_size (drop i uris), False)]\<rparr>"
      have u: "add_batches env pid uris i st = add_batches env pid uris (i + batch_size) ?st"
        using True Some by (subst add_batches.simps) (simp add: Let_def)
      have inv: "\<forall>k < length (submitted ?st).
         snd (submitted ?st ! k) = (sp_playlist_add_items env k pid (fst (submitted ?st ! k)) = None)"
        using "1.prems"(1) Some by (auto simp: nth_append less_Suc_eq)
      from "1.IH"(2) [OF True refl Some inv] "1.prems"(2) show ?thesis
        unfolding u by simp
    qed
  qed
qed

lemma counters_add_batches:
  "added_count st = length (added_tracks st) \<Longrightarrow> failed_tracks st = raised_tracks st
   \<Longrightarrow> added_count (add_batches env pid uris i st)
         = length (added_tracks (add_batches env pid uris i st))
       \<and> failed_tracks (add_batches env pid uris i st)
         = raised_tracks (add_batches env pid uris i st)"
proof (induction env pid uris i st rule: add_batches.induct)
  case (1 env pid uris i st)
  show ?case
  proof (cases "i < length uris")
    case False
    then have u: "add_batches env pid uris i st = st"
      by (subst add_batches.simps) simp
    from "1.prems" show ?thesis unfolding u by simp
  next
    case True
    show ?thesis
    proof (cases "sp_playlist_add_items env (length (submitted st)) pid
                    (take batch_size (drop i uris))")
      case None
      let ?st = "st\<lparr>added_count := added_count st + length (take batch_size (drop i uris)),
                     submitted := submitted st @ [(take batch_size (drop i uris), True)]\<rparr>"
      have u: "add_batches env pid uris i st = add_batches env pid uris (i + batch_size) ?st"
        using True None by (subst add_batches.simps) (simp add: Let_def)
      have a: "added_count ?st = length (added_tracks ?st)"
        using "1.prems" by (simp add: added_tracks_def)
      have f: "failed_tracks ?st = raised_tracks ?st"
        using "1.prems" by (simp add: raised_tracks_def)
      from "1.IH"(1) [OF True refl None a f] show ?thesis unfolding u .
    next
      case (Some e)
      let ?st = "st\<lparr>failed_tracks := failed_tracks st @ take batch_size (drop i uris),
                     submitted := submitted st @ [(take batch_size (drop i uris), False)]\<rparr>"
      have u: "add_batches env pid uris i st = add_batches env pid uris (i + batch_size) ?st"
        using True Some by (subst add_batches.simps) (simp add: Let_def)
      have a: "added_count ?st = length (added_tracks ?st)"
        using "1.prems" by (simp add: added_tracks_def)
      have f: "failed_tracks ?st = raised_tracks ?st"
        using "1.prems" by (simp add: raised_tracks_def)
      from "1.IH"(2) [OF True refl Some a f] show ?thesis unfolding u .
    qed
  qed
qed

lemma mset_split_outcomes:
  "mset (concat (map fst (filter (\<lambda>(b, ok). ok) xs)))
     + mset (concat (map fst (filter (\<lambda>(b, ok). \<not> ok) xs)))
   = mset (concat (map fst xs))"
  by (induction xs) auto

lemma added_raised_mset:
  "mset (added_tracks w) + mset (raised_tracks w) = mset (concat (map fst (submitted w)))"
  by (simp add: added_tracks_def raised_tracks_def mset_split_outcomes)

lemma searched_search_one:
  "searched (search_one env req st) = searched st @ [sq_search_query req]"
  by (simp add: search_one_def Let_def split: sum.splits list.splits)

lemma results_search_one:
  "search_results (search_one env req st)
     = search_results st
       @ (case search_hit env (length (searched st)) req of None \<Rightarrow> [] | Some r \<Rightarrow> [r])"
  by (simp add: search_one_def search_hit_def Let_def split: sum.splits list.splits)

lemma search_all_decomposed:
  "searched (search_all env reqs st) = searched st @ map sq_search_query reqs
   \<and> search_results (search_all env reqs st)
       = search_results st
         @ List.map_filter (\<lambda>(k, req). search_hit env k req)
             (enumerate (length (searched st)) reqs)"
proof (induction reqs arbitrary: st)
  case Nil
  show ?case by (simp add: List.map_filter_simps)
next
  case (Cons req reqs)
  show ?case
    using Cons.IH [of "search_one env req st"]
    by (simp add: searched_search_one results_search_one List.map_filter_simps
             split: option.splits)
qed

lemma map_filter_append:
  "List.map_filter f (xs @ ys) = List.map_filter f xs @ List.map_filter f ys"
  by (simp add: List.map_filter_def)

lemma search_results_skip:
  assumes "search_hit env (length before) req = None"
  shows "List.map_filter (\<lambda>(k, r). search_hit env k r) (enumerate 0 (before @ req # rest))
     = List.map_filter (\<lambda>(k, r). search_hit env k r) (enumerate 0 before)
       @ List.map_filter (\<lambda>(k, r). search_hit env k r) (enumerate (Suc (length before)) rest)"
  using assms by (simp add: enumerate_append_eq map_filter_append List.map_filter_simps)

lemma uris_150_length: "length uris_150 = 150"
  by (simp add: uris_150_def)

lemma uris_150_distinct: "distinct uris_150"
proof -
  have "inj_on (\<lambda>n. ''spotify:track:'' @ replicate n CHR ''a'') {0 ..< 150}"
    by (rule inj_onI) (metis length_replicate same_append_eq)
  then show ?thesis by (simp add: uris_150_def distinct_map)
qed

lemma writer_submitted: "map fst (submitted (add_all_tracks env pid uris)) = chunks batch_size uris"
  using submitted_add_batches [of env pid uris 0 writer_init]
  by (simp add: add_all_tracks_def writer_init_def)

lemma writer_counters:
  "added_count (add_all_tracks env pid uris) = length (added_tracks (add_all_tracks env pid uris))
   \<and> failed_tracks (add_all_tracks env pid uris) = raised_tracks (add_all_tracks env pid uris)"
  unfolding add_all_tracks_def
  by (rule counters_add_batches) (simp_all add: writer_init_def added_tracks_def raised_tracks_def)

lemma writer_outcomes:
  "k < length (submitted (add_all_tracks env pid uris)) \<Longrightarrow>
   snd (submitted (add_all_tracks env pid uris) ! k)
     = (sp_playlist_add_items env k pid (fst (submitted (add_all_tracks env pid uris) ! k)) = None)"
  unfolding add_all_tracks_def
  by (rule outcomes_add_batches) (simp_all add: writer_init_def)

lemma writer_concat: "concat (map fst (submitted (add_all_tracks env pid uris))) = uris"
  by (simp add: writer_submitted concat_chunks batch_size_def)

lemma writer_mset:
  "mset (added_tracks (add_all_tracks env pid uris))
     + mset (failed_tracks (add_all_tracks env pid uris)) = mset uris"
  using added_raised_mset [of "add_all_tracks env pid uris"] writer_counters [of env pid uris]
  by (simp add: writer_concat)

lemma writer_total:
  "added_count (add_all_tracks env pid uris) + length (failed_tracks (add_all_tracks env pid uris))
     = length uris"
proof -
  have "size (mset (added_tracks (add_all_tracks env pid uris))
              + mset (failed_tracks (add_all_tracks env pid uris))) = size (mset uris)"
    by (simp only: writer_mset)
  then show ?thesis using writer_counters [of env pid uris] by simp
qed

lemma writer_distinct:
  assumes "distinct uris"
  shows "distinct (added_tracks (add_all_tracks env pid uris)
                   @ failed_tracks (add_all_tracks env pid uris))"
proof -
  have "mset (added_tracks (add_all_tracks env pid uris)
              @ failed_tracks (add_all_tracks env pid uris)) = mset uris"
    using writer_mset [of env pid uris] by simp
  then show ?thesis using assms mset_eq_imp_distinct_iff by blast
qed

lemma writer_batch_sizes:
  "b \<in> set (map fst (submitted (add_all_tracks env pid uris))) \<Longrightarrow> b \<noteq> [] \<and> length b \<le> 100"
  using chunks_sizes [of batch_size b uris] by (simp add: writer_submitted batch_size_def)

lemma writer_150:
  assumes "length uris = 150"
  shows "map length (map fst (submitted (add_all_tracks env pid uris))) = [100, 50]"
  unfolding writer_submitted batch_size_def chunks_150 [OF assms] using assms by simp

lemma create_summary:
  assumes "create_spotify_playlist env song_reqs search_reqs name = (Inr s, calls)"
  shows "sm_added s + length (sm_failed s)
     = length (all_track_uris song_reqs (search_results (search_all env search_reqs search_init)))"
proof -
  from assms obtain pl where
    "s = \<lparr>sm_playlist = pl, sm_direct = length song_reqs,
          sm_search = length (search_results (search_all env search_reqs search_init)),
          sm_added = added_count (add_all_tracks env (pl_id pl)
             (all_track_uris song_reqs (search_results (search_all env search_reqs search_init)))),
          sm_failed = failed_tracks (add_all_tracks env (pl_id pl)
             (all_track_uris song_reqs (search_results (search_all env search_reqs search_init))))\<rparr>"
    by (auto simp: create_spotify_playlist_def add_all_tracks_def Let_def
             split: sum.splits prod.splits)
  then show ?thesis by (simp add: writer_total)
qed

lemma search_all_init:
  "searched (search_all env qs search_init) = map sq_search_query qs
     \<and> search_results (search_all env qs search_init)
       = List.map_filter (\<lambda>(k, r). search_hit env k r) (enumerate 0 qs)"
  using search_all_decomposed [of env qs search_init] by (simp add: search_init_def)

lemma search_hit_miss:
  "sp_search env k (sq_search_query req) = Inl e
     \<or> sp_search env k (sq_search_query req) = Inr [] \<Longrightarrow> search_hit env k req = None"
  by (auto simp: search_hit_def)

lemma search_all_skip:
  assumes "search_hit env (length before) req = None"
  shows "search_results (search_all env (before @ req # rest) search_init)
               = List.map_filter (\<lambda>(k, r). search_hit env k r) (enumerate 0 before)
                 @ List.map_filter (\<lambda>(k, r). search_hit env k r)
                     (enumerate (Suc (length before)) rest)"
proof -
  have "search_results (search_all env (before @ req # rest) search_init)
      = List.map_filter (\<lambda>(k, r). search_hit env k r) (enumerate 0 (before @ req # rest))"
    using search_all_init [of env "before @ req # rest"] by (rule conjunct2)
  also have "\<dots> = List.map_filter (\<lambda>(k, r). search_hit env k r) (enumerate 0 before)
                 @ List.map_filter (\<lambda>(k, r). search_hit env k r)
                     (enumerate (Suc (length before)) rest)"
    by (rule search_results_skip [OF assms])
  finally show ?thesis .
qed

lemma writer_nth:
  assumes "k < length (chunks batch_size uris)"
  shows "k < length (submitted (add_all_tracks env pid uris))
   \<and> submitted (add_all_tracks env pid uris) ! k
      = (chunks batch_size uris ! k,
         sp_playlist_add_items env k pid (chunks batch_size uris ! k) = None)"
proof -
  have len: "length (submitted (add_all_tracks env pid uris)) = length (chunks batch_size uris)"
    using arg_cong [OF writer_submitted [of env pid uris], of length] by simp
  with assms have l: "k < length (submitted (add_all_tracks env pid uris))" by simp
  have "map fst (submitted (add_all_tracks env pid uris)) ! k = chunks batch_size uris ! k"
    by (simp only: writer_submitted)
  with l have f: "fst (submitted (add_all_tracks env pid uris) ! k) = chunks batch_size uris ! k"
    by simp
  have s: "snd (submitted (add_all_tracks env pid uris) ! k)
     = (sp_playlist_add_items env k pid (chunks batch_size uris ! k) = None)"
    using writer_outcomes [OF l] by (simp only: f)
  have "submitted (add_all_tracks env pid uris) ! k
      = (fst (submitted (add_all_tracks env pid uris) ! k),
         snd (submitted (add_all_tracks env pid uris) ! k))"
    by simp
  then show ?thesis using l by (simp only: f s)
qed

lemma raised_tracks_member:
  "(b, False) \<in> set (submitted w) \<Longrightarrow> set b \<subseteq> set (raised_tracks w)"
proof -
  assume a: "(b, False) \<in> set (submitted w)"
  then have "b \<in> set (map fst (filter (\<lambda>(batch, ok). \<not> ok) (submitted w)))"
    by (simp add: image_iff) blast
  then show ?thesis unfolding raised_tracks_def by auto
qed

lemma added_tracks_member:
  "(b, True) \<in> set (submitted w) \<Longrightarrow> set b \<subseteq> set (added_tracks w)"
proof -
  assume a: "(b, True) \<in> set (submitted w)"
  then have "b \<in> set (map fst (filter (\<lambda>(batch, ok). ok) (submitted w)))"
    by (simp add: image_iff) blast
  then show ?thesis unfolding added_tracks_def by auto
qed

section \<open>Lemmas: the authorization flow\<close>

lemma wait_for_token_none:
  "(\<forall>j < length ks. \<not> truthy (access_token
        (foldl (\<lambda>s k. handle_callbacks s (arr k)) self (take (Suc j) ks))))
   \<Longrightarrow> wait_for_token arr ks self trace
       = (foldl (\<lambda>s k. handle_callbacks s (arr k)) self ks, trace @ map Slept ks)"
proof (induction ks arbitrary: self trace)
  case Nil
  show ?case by simp
next
  case (Cons k ks)
  from Cons.prems have h0: "\<not> truthy (access_token (handle_callbacks self (arr k)))"
    by (auto dest: spec [of _ 0])
  have rest: "\<forall>j < length ks. \<not> truthy (access_token
        (foldl (\<lambda>s k. handle_callbacks s (arr k)) (handle_callbacks self (arr k))
           (take (Suc j) ks)))"
  proof (intro allI impI)
    fix j assume "j < length ks"
    then have "Suc j < length (k # ks)" by simp
    with Cons.prems show "\<not> truthy (access_token
        (foldl (\<lambda>s k. handle_callbacks s (arr k)) (handle_callbacks self (arr k))
           (take (Suc j) ks)))"
      by (auto dest!: spec [of _ "Suc j"])
  qed
  show ?case using h0 Cons.IH [OF rest, of "trace @ [Slept k]"] by (simp add: Let_def)
qed

lemma wait_for_token_first:
  "i < length ks
   \<Longrightarrow> truthy (access_token
         (foldl (\<lambda>s k. handle_callbacks s (arr k)) self (take (Suc i) ks)))
   \<Longrightarrow> (\<forall>j < i. \<not> truthy (access_token
        (foldl (\<lambda>s k. handle_callbacks s (arr k)) self (take (Suc j) ks))))
   \<Longrightarrow> wait_for_token arr ks self trace
       = (foldl (\<lambda>s k. handle_callbacks s (arr k)) self (take (Suc i) ks),
          trace @ map Slept (take (Suc i) ks))"
proof (induction ks arbitrary: self trace i)
  case Nil
  then show ?case by simp
next
  case (Cons k ks)
  show ?case
  proof (cases i)
    case 0
    with Cons.prems show ?thesis by (simp add: Let_def)
  next
    case (Suc i')
    from Cons.prems(3) Suc have h0: "\<not> truthy (access_token (handle_callbacks self (arr k)))"
      by (auto dest: spec [of _ 0])
    have a: "i' < length ks" using Cons.prems(1) Suc by simp
    have b: "truthy (access_token
         (foldl (\<lambda>s k. handle_callbacks s (arr k)) (handle_callbacks self (arr k))
            (take (Suc i') ks)))"
      using Cons.prems(2) Suc by simp
    have c: "\<forall>j < i'. \<not> truthy (access_token
        (foldl (\<lambda>s k. handle_callbacks s (arr k)) (handle_callbacks self (arr k))
           (take (Suc j) ks)))"
    proof (intro allI impI)
      fix j assume "j < i'"
      then have "Suc j < i" using Suc by simp
      with Cons.prems(3) show "\<not> truthy (access_token
        (foldl (\<lambda>s k. handle_callbacks s (arr k)) (handle_callbacks self (arr k))
           (take (Suc j) ks)))"
        by (auto dest!: spec [of _ "Suc j"])
    qed
    show ?thesis
      using h0 Cons.IH [OF a b c, of "trace @ [Slept k]"] Suc by (simp add: Let_def)
  qed
qed

lemma wait_for_token_prefix:
  "\<exists>n \<le> length ks.
     wait_for_token arr ks self trace
       = (foldl (\<lambda>s k. handle_callbacks s (arr k)) self (take n ks),
          trace @ map Slept (take n ks))
     \<and> (n < length ks \<longrightarrow> truthy (access_token
            (foldl (\<lambda>s k. handle_callbacks s (arr k)) self (take n ks))))
     \<and> (ks \<noteq> [] \<longrightarrow> 0 < n)"
proof (induction ks arbitrary: self trace)
  case Nil
  show ?case by simp
next
  case (Cons k ks)
  show ?case
  proof (cases "truthy (access_token (handle_callbacks self (arr k)))")
    case True
    then show ?thesis
      by (intro exI [of _ "Suc 0"]) (simp add: Let_def)
  next
    case False
    from Cons.IH [of "handle_callbacks self (arr k)" "trace @ [Slept k]"]
    obtain n where n: "n \<le> length ks"
      "wait_for_token arr ks (handle_callbacks self (arr k)) (trace @ [Slept k])
       = (foldl (\<lambda>s k. handle_callbacks s (arr k)) (handle_callbacks self (arr k)) (take n ks),
          (trace @ [Slept k]) @ map Slept (take n ks))"
      "n < length ks \<longrightarrow> truthy (access_token
            (foldl (\<lambda>s k. handle_callbacks s (arr k)) (handle_callbacks self (arr k)) (take n ks)))"
      by blast
    show ?thesis
      using False n by (intro exI [of _ "Suc n"]) (simp add: Let_def)
  qed
qed

lemma ticks_append_slept: "ticks (map Slept ks @ rest) = length ks + ticks rest"
  by (induction ks) (simp_all add: ticks_def)

lemma after_ticks_take:
  "n \<le> timeout \<Longrightarrow>
   foldl (\<lambda>s k. handle_callbacks s (au_arrivals env k))
     (self\<lparr>state := PStr (au_token_urlsafe env)\<rparr>) (take n [0 ..< timeout])
   = after_ticks env self n"
  by (simp add: after_ticks_def take_upt)

lemma start_oauth_flow_shape:
  assumes "au_server_start env = None"
  shows "\<exists>n. 0 < n \<and> n \<le> 120
     \<and> start_oauth_flow env self =
         (Inr (truthy (access_token (after_ticks env self n))), after_ticks env self n,
          map Slept [0 ..< n]
            @ (if truthy (access_token (after_ticks env self n)) then [CleanedUp]
               else [CleanedUp, PrintedTimeout]))
     \<and> (n < 120 \<longrightarrow> truthy (access_token (after_ticks env self n)))"
proof -
  from wait_for_token_prefix
         [of "[0 ..< timeout]" "au_arrivals env" "self\<lparr>state := PStr (au_token_urlsafe env)\<rparr>" "[]"]
  obtain n where n: "n \<le> length [0 ..< timeout]"
    and w: "wait_for_token (au_arrivals env) [0 ..< timeout]
             (self\<lparr>state := PStr (au_token_urlsafe env)\<rparr>) []
       = (foldl (\<lambda>s k. handle_callbacks s (au_arrivals env k))
            (self\<lparr>state := PStr (au_token_urlsafe env)\<rparr>) (take n [0 ..< timeout]),
          [] @ map Slept (take n [0 ..< timeout]))"
    and e: "n < length [0 ..< timeout] \<longrightarrow> truthy (access_token
            (foldl (\<lambda>s k. handle_callbacks s (au_arrivals env k))
               (self\<lparr>state := PStr (au_token_urlsafe env)\<rparr>) (take n [0 ..< timeout])))"
    and p: "[0 ..< timeout] \<noteq> [] \<longrightarrow> 0 < n"
    by blast
  from n have le: "n \<le> timeout" by simp
  have t: "take n [0 ..< timeout] = [0 ..< n]" using le by (simp add: take_upt)
  have w': "wait_for_token (au_arrivals env) [0 ..< timeout]
             (self\<lparr>state := PStr (au_token_urlsafe env)\<rparr>) []
       = (after_ticks env self n, map Slept [0 ..< n])"
    using w by (simp add: t after_ticks_def del: upt_Suc)
  have e': "n < 120 \<longrightarrow> truthy (access_token (after_ticks env self n))"
    using e unfolding after_ticks_take [OF le] by (simp add: timeout_def)
  have pos: "0 < n" using p by (simp add: timeout_def)
  have flow: "start_oauth_flow env self =
         (Inr (truthy (access_token (after_ticks env self n))), after_ticks env self n,
          map Slept [0 ..< n]
            @ (if truthy (access_token (after_ticks env self n)) then [CleanedUp]
               else [CleanedUp, PrintedTimeout]))"
    using assms by (simp add: start_oauth_flow_def w' del: upt_Suc)
  from pos le e' flow show ?thesis unfolding timeout_def by blast
qed

lemma start_oauth_flow_first:
  assumes "au_server_start env = None" and "k < 120"
    and "truthy (access_token (after_ticks env self (Suc k)))"
    and "\<forall>j < k. \<not> truthy (access_token (after_ticks env self (Suc j)))"
  shows "start_oauth_flow env self =
      (Inr True, after_ticks env self (Suc k), map Slept [0 ..< Suc k] @ [CleanedUp])"
proof -
  have t: "take (Suc j) [0 ..< timeout] = [0 ..< Suc j]" if "j < 120" for j
    using that by (simp add: take_upt timeout_def del: upt_Suc)
  have a: "k < length [0 ..< timeout]" using assms(2) by (simp add: timeout_def)
  have b: "truthy (access_token
         (foldl (\<lambda>s k. handle_callbacks s (au_arrivals env k))
            (self\<lparr>state := PStr (au_token_urlsafe env)\<rparr>) (take (Suc k) [0 ..< timeout])))"
    using assms(3) unfolding t [OF assms(2)] by (simp only: after_ticks_def)
  have c: "\<forall>j < k. \<not> truthy (access_token
        (foldl (\<lambda>s k. handle_callbacks s (au_arrivals env k))
           (self\<lparr>state := PStr (au_token_urlsafe env)\<rparr>) (take (Suc j) [0 ..< timeout])))"
  proof (intro allI impI)
    fix j assume j: "j < k"
    then have "j < 120" using assms(2) by simp
    from t [OF this] assms(4) j show "\<not> truthy (access_token
        (foldl (\<lambda>s k. handle_callbacks s (au_arrivals env k))
           (self\<lparr>state := PStr (au_token_urlsafe env)\<rparr>) (take (Suc j) [0 ..< timeout])))"
      by (simp only: after_ticks_def) blast
  qed
  have w: "wait_for_token (au_arrivals env) [0 ..< timeout]
             (self\<lparr>state := PStr (au_token_urlsafe env)\<rparr>) []
       = (after_ticks env self (Suc k), map Slept [0 ..< Suc k])"
    using wait_for_token_first [OF a b c, of "[]"] unfolding t [OF assms(2)]
    by (simp only: after_ticks_def append_Nil)
  show ?thesis
    using assms(1) assms(3) by (simp add: start_oauth_flow_def w del: upt_Suc)
qed

lemma start_oauth_flow_timeout:
  assumes "au_server_start env = None"
    and "\<forall>j < 120. \<not> truthy (access_token (after_ticks env self (Suc j)))"
  shows "start_oauth_flow env self =
      (Inr False, after_ticks env self 120, map Slept [0 ..< 120] @ [CleanedUp, PrintedTimeout])"
proof -
  have t: "take (Suc j) [0 ..< timeout] = [0 ..< Suc j]" if "j < 120" for j
    using that by (simp add: take_upt timeout_def del: upt_Suc)
  have c: "\<forall>j < length [0 ..< timeout]. \<not> truthy (access_token
        (foldl (\<lambda>s k. handle_callbacks s (au_arrivals env k))
           (self\<lparr>state := PStr (au_token_urlsafe env)\<rparr>) (take (Suc j) [0 ..< timeout])))"
  proof (intro allI impI)
    fix j assume "j < length [0 ..< timeout]"
    then have j: "j < 120" by (simp add: timeout_def)
    from t [OF this] assms(2) j show "\<not> truthy (access_token
        (foldl (\<lambda>s k. handle_callbacks s (au_arrivals env k))
           (self\<lparr>state := PStr (au_token_urlsafe env)\<rparr>) (take (Suc j) [0 ..< timeout])))"
      by (simp only: after_ticks_def) blast
  qed
  have w: "wait_for_token (au_arrivals env) [0 ..< timeout]
             (self\<lparr>state := PStr (au_token_urlsafe env)\<rparr>) []
       = (after_ticks env self 120, map Slept [0 ..< 120])"
    using wait_for_token_none [OF c, of "[]"]
    by (simp only: after_ticks_def append_Nil timeout_def)
  have "\<not> truthy (access_token (after_ticks env self 120))"
    using assms(2) by (auto dest!: spec [of _ 119])
  then show ?thesis
    using assms(1) by (simp add: start_oauth_flow_def w del: upt_Suc)
qed

section \<open>Lemmas: the run\<close>

lemma oauth_callback_rejected:
  "denied_or_mismatched token request \<Longrightarrow> state self = PStr token
   \<Longrightarrow> oauth_callback self request = (400, self)"
  by (auto simp: denied_or_mismatched_def oauth_callback_def Let_def)

lemma handle_callbacks_rejected:
  "\<forall>request \<in> set requests. denied_or_mismatched token request \<Longrightarrow> state self = PStr token
   \<Longrightarrow> handle_callbacks self requests = self"
proof (induction requests)
  case Nil
  show ?case by simp
next
  case (Cons request requests)
  then have "oauth_callback self request = (400, self)"
    by (intro oauth_callback_rejected [of token]) simp_all
  with Cons show ?case by simp
qed

lemma after_ticks_rejected:
  "\<forall>k < n. \<forall>request \<in> set (au_arrivals env k).
      denied_or_mismatched (au_token_urlsafe env) request
   \<Longrightarrow> after_ticks env self n = self\<lparr>state := PStr (au_token_urlsafe env)\<rparr>"
proof (induction n)
  case 0
  show ?case by (simp add: after_ticks_def)
next
  case (Suc n)
  from Suc.prems have "\<forall>k < n. \<forall>request \<in> set (au_arrivals env k).
      denied_or_mismatched (au_token_urlsafe env) request"
    by (simp add: less_Suc_eq)
  then have ih: "after_ticks env self n = self\<lparr>state := PStr (au_token_urlsafe env)\<rparr>"
    by (rule Suc.IH)
  have step: "after_ticks env self (Suc n)
      = handle_callbacks (after_ticks env self n) (au_arrivals env n)"
    by (simp add: after_ticks_def)
  from Suc.prems have "\<forall>request \<in> set (au_arrivals env n).
      denied_or_mismatched (au_token_urlsafe env) request"
    by (meson lessI)
  then show ?case unfolding step ih
    by (rule handle_callbacks_rejected) simp
qed

lemma start_oauth_flow_rejected:
  assumes "au_server_start env = None" and "\<not> truthy (access_token self)"
    and "\<forall>k < 120. \<forall>request \<in> set (au_arrivals env k).
           denied_or_mismatched (au_token_urlsafe env) request"
  shows "start_oauth_flow env self =
      (Inr False, self\<lparr>state := PStr (au_token_urlsafe env)\<rparr>,
       map Slept [0 ..< 120] @ [CleanedUp, PrintedTimeout])"
proof -
  have a: "after_ticks env self n = self\<lparr>state := PStr (au_token_urlsafe env)\<rparr>"
    if "n \<le> 120" for n
  proof (rule after_ticks_rejected, intro allI impI)
    fix k assume "k < n"
    with that have "k < 120" by simp
    with assms(3) show "\<forall>request \<in> set (au_arrivals env k).
           denied_or_mismatched (au_token_urlsafe env) request"
      by blast
  qed
  have "\<forall>j < 120. \<not> truthy (access_token (after_ticks env self (Suc j)))"
    using a assms(2) by simp
  from start_oauth_flow_timeout [OF assms(1) this] a [of 120] show ?thesis by simp
qed

lemma fetch_auth_failed:
  "fst (start_oauth_flow (tw_auth tw) oauth_init) = Inr False
   \<Longrightarrow> get_song_requests_from_twitch tw login = Returns (ResultPair [] [])"
  by (cases "start_oauth_flow (tw_auth tw) oauth_init")
     (simp add: get_song_requests_from_twitch_def)

lemma fetch_no_broadcaster:
  "fst (start_oauth_flow (tw_auth tw) oauth_init) = Inr True
   \<Longrightarrow> tw_get_broadcaster_id tw login = Inr b \<Longrightarrow> \<not> truthy b
   \<Longrightarrow> get_song_requests_from_twitch tw login = Returns (ResultPair [] [])"
  by (cases "start_oauth_flow (tw_auth tw) oauth_init")
     (simp add: get_song_requests_from_twitch_def)

lemma fetch_no_reward:
  "fst (start_oauth_flow (tw_auth tw) oauth_init) = Inr True
   \<Longrightarrow> tw_get_broadcaster_id tw login = Inr b \<Longrightarrow> truthy b
   \<Longrightarrow> tw_get_custom_rewards tw b = Inr rewards \<Longrightarrow> find_song_reward rewards = Inr None
   \<Longrightarrow> get_song_requests_from_twitch tw login = Returns (ResultPair [] [])"
  by (cases "start_oauth_flow (tw_auth tw) oauth_init")
     (simp add: get_song_requests_from_twitch_def)

lemma fetch_returns_pair:
  "get_song_requests_from_twitch tw login = Returns result
   \<Longrightarrow> \<exists>song search. result = ResultPair song search"
  unfolding get_song_requests_from_twitch_def
  by (auto split: prod.splits sum.splits bool.splits if_splits option.splits run.splits)

lemma fetch_requests_need_token:
  "get_song_requests_from_twitch tw login = Returns (ResultPair song search)
   \<Longrightarrow> song \<noteq> [] \<or> search \<noteq> []
   \<Longrightarrow> fst (start_oauth_flow (tw_auth tw) oauth_init) = Inr True"
  unfolding get_song_requests_from_twitch_def
  by (auto split: prod.splits sum.splits bool.splits)

lemma main_no_requests:
  "strip input_line \<noteq> []
   \<Longrightarrow> get_song_requests_from_twitch tw (strip input_line) = Returns (ResultPair [] [])
   \<Longrightarrow> main input_line tw sp = (Returns NoValidRequests, [])"
  by (simp add: main_def Let_def)

lemma main_never_fetch_failed: "fst (main input_line tw sp) \<noteq> Returns FetchFailed"
proof (cases "get_song_requests_from_twitch tw (strip input_line)")
  case (Returns result)
  from fetch_returns_pair [OF this] obtain song search where "result = ResultPair song search"
    by blast
  with Returns show ?thesis
    by (simp add: main_def Let_def split: prod.splits sum.splits)
next
  case (Raises e)
  then show ?thesis by (simp add: main_def Let_def)
next
  case NeverReturns
  then show ?thesis by (simp add: main_def Let_def)
qed

lemma main_calls_need_requests:
  assumes "snd (main input_line tw sp) \<noteq> []"
  shows "\<exists>song search.
     get_song_requests_from_twitch tw (strip input_line) = Returns (ResultPair song search)
     \<and> (song \<noteq> [] \<or> search \<noteq> [])"
proof (cases "get_song_requests_from_twitch tw (strip input_line)")
  case (Returns result)
  from fetch_returns_pair [OF this] obtain song search where r: "result = ResultPair song search"
    by blast
  with Returns assms show ?thesis
    by (auto simp: main_def Let_def split: if_splits)
next
  case (Raises e)
  with assms show ?thesis by (simp add: main_def Let_def split: if_splits)
next
  case NeverReturns
  with assms show ?thesis by (simp add: main_def Let_def split: if_splits)
qed

section \<open>The claims\<close>

subsection \<open>C1: the parser and its reference definition\<close>

text \<open>
  Claim C1, as amended. For every input (a text or \<open>None\<close>), \<open>parse_spotify_url\<close> equals
  the reference definition that tries, in order, (a) \<open>http://\<close> or
  \<open>https://open.spotify.com/track/<id>\<close>, (b) \<open>spotify:track:<id>\<close>, (c)
  \<open>track/<id>\<close>, each at its leftmost occurrence in the text, and returns the identifier
  of the first pattern that applies; \<open>None\<close> and the empty text give no match, and the
  function has no failing branch. A returned identifier is a non-empty alphanumeric token.
  (a) wins over (b), and (b) over (c).
\<close>

theorem parse_spotify_url_reference:
  "parse_spotify_url v = ref_parse_amended ''spotify'' v
   \<and> parse_spotify_url PNone = None
   \<and> parse_spotify_url (PStr []) = None
   \<and> (parse_spotify_url v = Some g \<longrightarrow> g \<noteq> [] \<and> list_all is_alnum g)
   \<and> (first_id [''https://open.spotify.com/track/'', ''http://open.spotify.com/track/''] t
         = Some a
       \<longrightarrow> parse_spotify_url (PStr t) = Some a)
   \<and> (first_id [''https://open.spotify.com/track/'', ''http://open.spotify.com/track/''] t
         = None
       \<and> first_id [''spotify:track:''] t = Some b
       \<longrightarrow> parse_spotify_url (PStr t) = Some b)
   \<and> (first_id [''https://open.spotify.com/track/'', ''http://open.spotify.com/track/''] t
         = None
       \<and> first_id [''spotify:track:''] t = None
       \<longrightarrow> parse_spotify_url (PStr t) = first_id [''track/''] t)"
proof -
  have r: "parse_spotify_url (PStr t) = ref_parse_amended ''spotify'' (PStr t)"
    by (rule parse_spotify_url_amended)
  have alnum: "parse_spotify_url v = Some g \<longrightarrow> g \<noteq> [] \<and> list_all is_alnum g"
    using parse_spotify_url_alnum by blast
  have none: "parse_spotify_url PNone = None" "parse_spotify_url (PStr []) = None"
    by (simp_all add: parse_spotify_url_def)
  have prio: "ref_parse_amended ''spotify'' (PStr t) =
     (case first_id [''https://open.spotify.com/track/'', ''http://open.spotify.com/track/''] t of
        Some x \<Rightarrow> Some x
      | None \<Rightarrow>
          (case first_id [''spotify:track:''] t of
             Some y \<Rightarrow> Some y
           | None \<Rightarrow> first_id [''track/''] t))"
    by (simp add: ref_parse_amended_def first_of_def List.map_filter_simps split: option.splits)
  show ?thesis
    using parse_spotify_url_amended [of v] alnum none by (simp add: r prio)
qed

theorem parse_spotify_url_reference_witness:
  "first_id [''https://open.spotify.com/track/'', ''http://open.spotify.com/track/'']
     ''spotify:track:zzz https://open.spotify.com/track/abc123?si=1'' = Some ''abc123''
   \<and> parse_spotify_url (PStr ''spotify:track:zzz https://open.spotify.com/track/abc123?si=1'')
       = Some ''abc123''
   \<and> ''abc123'' \<noteq> [] \<and> list_all is_alnum ''abc123''
   \<and> first_id [''https://open.spotify.com/track/'', ''http://open.spotify.com/track/'']
       ''see track/q or spotify:track:Zz9'' = None
   \<and> first_id [''spotify:track:''] ''see track/q or spotify:track:Zz9'' = Some ''Zz9''
   \<and> parse_spotify_url (PStr ''see track/q or spotify:track:Zz9'') = Some ''Zz9''
   \<and> first_id [''https://open.spotify.com/track/'', ''http://open.spotify.com/track/'']
       ''album/track/q7!'' = None
   \<and> first_id [''spotify:track:''] ''album/track/q7!'' = None
   \<and> first_id [''track/''] ''album/track/q7!'' = Some ''q7''
   \<and> parse_spotify_url (PStr ''album/track/q7!'') = Some ''q7''"
proof -
  have a1: "first_id [''https://open.spotify.com/track/'', ''http://open.spotify.com/track/'']
     ''spotify:track:zzz https://open.spotify.com/track/abc123?si=1'' = Some ''abc123''"
    by code_simp
  have a2: "parse_spotify_url
              (PStr ''spotify:track:zzz https://open.spotify.com/track/abc123?si=1'')
            = Some ''abc123''"
    using parse_spotify_url_reference
            [of _ _ "''spotify:track:zzz https://open.spotify.com/track/abc123?si=1''"
                "''abc123''"] a1
    by blast
  have a3: "''abc123'' \<noteq> [] \<and> list_all is_alnum ''abc123''"
    using parse_spotify_url_reference
            [of "PStr ''spotify:track:zzz https://open.spotify.com/track/abc123?si=1''"
                "''abc123''"] a2
    by blast
  have b1: "first_id [''https://open.spotify.com/track/'', ''http://open.spotify.com/track/'']
     ''see track/q or spotify:track:Zz9'' = None"
    by code_simp
  have b2: "first_id [''spotify:track:''] ''see track/q or spotify:track:Zz9'' = Some ''Zz9''"
    by code_simp
  have b3: "parse_spotify_url (PStr ''see track/q or spotify:track:Zz9'') = Some ''Zz9''"
    using parse_spotify_url_reference
            [of _ _ "''see track/q or spotify:track:Zz9''" _ "''Zz9''"] b1 b2
    by blast
  have c1: "first_id [''https://open.spotify.com/track/'', ''http://open.spotify.com/track/'']
     ''album/track/q7!'' = None"
    by code_simp
  have c2: "first_id [''spotify:track:''] ''album/track/q7!'' = None"
    by code_simp
  have c3: "first_id [''track/''] ''album/track/q7!'' = Some ''q7''"
    by code_simp
  have "parse_spotify_url (PStr ''album/track/q7!'') = first_id [''track/''] ''album/track/q7!''"
    using parse_spotify_url_reference [of _ _ "''album/track/q7!''"] c1 c2
    by blast
  then have c4: "parse_spotify_url (PStr ''album/track/q7!'') = Some ''q7''"
    by (simp only: c3)
  show ?thesis using a1 a2 a3 b1 b2 b3 c1 c2 c3 c4 by blast
qed

text \<open>
  The claim as stated, with pattern (a) restricted to \<open>https://\<close>, fails: the code's
  first pattern is \<open>https?://...\<close>, so an \<open>http://\<close> link later in the text wins over an
  earlier \<open>track/<id>\<close> fragment.
\<close>

theorem parse_spotify_url_counterexample:
  "parse_spotify_url (PStr ''track/x http://open.spotify.com/track/y'')
     \<noteq> ref_parse ''spotify'' (PStr ''track/x http://open.spotify.com/track/y'')"
  by code_simp

subsection \<open>C4: the assembled track list\<close>

text \<open>
  Claim C4. The assembler's output is the URIs of the DirectRequests followed by the URIs
  of the SearchResults, each group in its order, with only the first occurrence of each
  URI kept; it has no duplicates and the same elements as the input; and the sequence
  \<open>[A, B, A, C]\<close> gives \<open>[A, B, C]\<close>.
\<close>

theorem assembler_first_occurrences:
  "all_track_uris song_reqs results =
     keep_first (map (\<lambda>req. ''spotify:track:'' @ dr_track_id req) song_reqs
                 @ map res_track_uri results)
   \<and> distinct (all_track_uris song_reqs results)
   \<and> set (all_track_uris song_reqs results) =
       set (map (\<lambda>req. ''spotify:track:'' @ dr_track_id req) song_reqs
            @ map res_track_uri results)
   \<and> (A \<noteq> B \<and> A \<noteq> C \<and> B \<noteq> C \<longrightarrow> dict_fromkeys_list [A, B, A, C] = [A, B, C])"
  by (simp add: all_track_uris_def dict_fromkeys_keep_first distinct_keep_first set_keep_first)

theorem assembler_first_occurrences_witness:
  "dict_fromkeys_list [''a'', ''b'', ''a'', ''c''] = [''a'', ''b'', ''c'']
   \<and> all_track_uris
        [\<lparr>dr_track_id = ''x1'', dr_user = PStr ''u'', dr_redeemed_at = PStr ''t'',
          dr_status = PStr ''FULFILLED'', dr_original_input = PStr ''spotify:track:x1'',
          dr_method = ''direct_url''\<rparr>]
        [\<lparr>res_track_id = ''x1'', res_track_uri = ''spotify:track:x1'', res_track_name = ''n'',
          res_artist = ''a'', res_user = PStr ''v'', res_search_query = ''q'',
          res_method = ''search''\<rparr>]
      = [''spotify:track:x1'']"
  using assembler_first_occurrences [of
        "[\<lparr>dr_track_id = ''x1'', dr_user = PStr ''u'', dr_redeemed_at = PStr ''t'',
          dr_status = PStr ''FULFILLED'', dr_original_input = PStr ''spotify:track:x1'',
          dr_method = ''direct_url''\<rparr>]"
        "[\<lparr>res_track_id = ''x1'', res_track_uri = ''spotify:track:x1'', res_track_name = ''n'',
          res_artist = ''a'', res_user = PStr ''v'', res_search_query = ''q'',
          res_method = ''search''\<rparr>]"
        "''a''" "''b''" "''c''"]
  by simp

subsection \<open>C2: classification is total and exclusive\<close>

text \<open>
  Claim C2. For every RedemptionRecord (a record that carries its requester, timestamp
  and status, and whose text is not \<open>null\<close>), one step of the classifier returns, and
  exactly one of the three outcomes holds between the state before and after: a
  DirectRequest was appended, a SearchRequest was appended, or a diagnostic was printed,
  the other two lists being unchanged. Over a fetched list of such records the loop
  returns, and the three lists together grow by one entry per record.
\<close>

theorem classification_total_exclusive:
  "(redemption_record r \<longrightarrow>
      (\<exists>acc'. classify r acc = Inr acc' \<and> exactly_one_outcome acc acc'))
   \<and> ((\<forall>r \<in> set rs. redemption_record r) \<longrightarrow>
      (\<exists>acc'. classify_all rs acc = Inr acc'
         \<and> length (song_requests acc') + length (search_requests acc')
             + length (diagnostics acc')
           = length (song_requests acc) + length (search_requests acc)
             + length (diagnostics acc) + length rs))"
  using classify_record_one [of r acc] classify_all_records [of rs acc] by blast

theorem classification_total_exclusive_witness:
  "redemption_record redemption_link \<and> redemption_record redemption_words
   \<and> redemption_record redemption_blank
   \<and> (\<exists>acc'. classify redemption_words no_requests = Inr acc'
         \<and> exactly_one_outcome no_requests acc')
   \<and> (\<exists>acc'. classify_all [redemption_link, redemption_words, redemption_blank] no_requests
                 = Inr acc'
         \<and> length (song_requests acc') + length (search_requests acc')
             + length (diagnostics acc')
           = length (song_requests no_requests) + length (search_requests no_requests)
             + length (diagnostics no_requests)
             + length [redemption_link, redemption_words, redemption_blank])"
proof -
  have h: "redemption_record redemption_link" "redemption_record redemption_words"
    "redemption_record redemption_blank"
    by (simp_all add: redemption_record_def redemption_link_def redemption_words_def
          redemption_blank_def)
  then have a: "\<forall>r \<in> set [redemption_link, redemption_words, redemption_blank].
                  redemption_record r"
    by simp
  show ?thesis
    using classification_total_exclusive
            [of redemption_words no_requests
                "[redemption_link, redemption_words, redemption_blank]"] h a
    by blast
qed

subsection \<open>C3: links to other sites are discarded\<close>

text \<open>
  Claim C3, as amended. When the text of a redemption contains \<open>http://\<close>, \<open>https://\<close>
  or \<open>www.\<close> as a case-insensitive substring and the parser finds no track identifier
  in it, the classifier returns with the warning for a non-Spotify link appended and both
  request lists unchanged. For every text with such a marker, whatever the parser finds,
  a step of the classifier that returns leaves the list of SearchRequests unchanged; and
  over any list of redemptions, no SearchRequest that the classifier emits has a text
  with such a marker as its query.
\<close>

theorem url_shaped_never_searched:
  "(r ''user_input'' = Some (PStr s) \<and> url_shaped s \<and> parse_spotify_url (PStr s) = None
      \<longrightarrow> classify r acc =
            Inr (acc\<lparr>diagnostics := diagnostics acc @ [SkippingNonSpotifyURL (take 50 s)]\<rparr>)
          \<and> discarded acc (acc\<lparr>diagnostics := diagnostics acc
                                    @ [SkippingNonSpotifyURL (take 50 s)]\<rparr>)
          \<and> \<not> emitted_search acc (acc\<lparr>diagnostics := diagnostics acc
                                             @ [SkippingNonSpotifyURL (take 50 s)]\<rparr>))
   \<and> (r ''user_input'' = Some (PStr s) \<and> url_shaped s \<and> classify r acc = Inr acc1
      \<longrightarrow> search_requests acc1 = search_requests acc \<and> \<not> emitted_search acc acc1)
   \<and> (classify_all rs no_requests = Inr acc' \<longrightarrow>
        (\<forall>q \<in> set (search_requests acc'). \<not> url_shaped (sq_search_query q)))"
proof -
  have step: "classify r acc =
            Inr (acc\<lparr>diagnostics := diagnostics acc @ [SkippingNonSpotifyURL (take 50 s)]\<rparr>)"
    if "r ''user_input'' = Some (PStr s)" "url_shaped s" "parse_spotify_url (PStr s) = None"
  proof -
    from that(1) have g: "dict_get r ''user_input'' (PStr []) = PStr s"
      by (simp add: dict_get_def)
    from that(3) have "classify r acc = classify_text r (PStr s) acc"
      using classify_no_track [of r acc] by (simp add: g)
    with that(2) show ?thesis by (simp add: classify_text_url)
  qed
  have out: "discarded acc (acc\<lparr>diagnostics := diagnostics acc @ [m]\<rparr>)
             \<and> \<not> emitted_search acc (acc\<lparr>diagnostics := diagnostics acc @ [m]\<rparr>)" for m
    by (simp add: discarded_def emitted_search_def)
  have same: "search_requests acc1 = search_requests acc"
    if u: "r ''user_input'' = Some (PStr s)" and m: "url_shaped s"
      and c: "classify r acc = Inr acc1"
  proof (cases "parse_spotify_url (PStr s)")
    case None
    from step [OF u m None] c show ?thesis by auto
  next
    case (Some tid)
    from u have g: "dict_get r ''user_input'' (PStr []) = PStr s"
      by (simp add: dict_get_def)
    from Some have "classify r acc = append_song_request r (PStr s) tid acc"
      using classify_track [of r tid acc] by (simp add: g)
    with c show ?thesis by (simp add: append_song_request_search)
  qed
  have unsearched: "\<not> emitted_search acc acc1"
    if "search_requests acc1 = search_requests acc"
    using that by (simp add: emitted_search_def)
  have loop: "\<not> url_shaped (sq_search_query q)"
    if "classify_all rs no_requests = Inr acc'" "q \<in> set (search_requests acc')" for q
    using classify_all_queries [OF that] by (simp add: no_requests_def)
  show ?thesis using step out same unsearched loop by blast
qed

theorem url_shaped_never_searched_witness:
  "redemption_other_site ''user_input'' = Some (PStr ''see WWW.youtube.com/watch'')
   \<and> url_shaped ''see WWW.youtube.com/watch''
   \<and> parse_spotify_url (PStr ''see WWW.youtube.com/watch'') = None
   \<and> classify redemption_other_site no_requests =
       Inr (no_requests\<lparr>diagnostics := diagnostics no_requests
              @ [SkippingNonSpotifyURL (take 50 ''see WWW.youtube.com/watch'')]\<rparr>)
   \<and> redemption_other_service ''user_input''
       = Some (PStr ''https://www.deezer.com/track/12345'')
   \<and> url_shaped ''https://www.deezer.com/track/12345''
   \<and> classify redemption_other_service no_requests =
       Inr \<lparr>song_requests =
              [\<lparr>dr_track_id = ''12345'', dr_user = PStr ''fay'',
                dr_redeemed_at = PStr ''2024-01-01T10:05:00Z'', dr_status = PStr ''FULFILLED'',
                dr_original_input = PStr ''https://www.deezer.com/track/12345'',
                dr_method = ''direct_url''\<rparr>],
            search_requests = [], diagnostics = []\<rparr>
   \<and> search_requests
         \<lparr>song_requests =
              [\<lparr>dr_track_id = ''12345'', dr_user = PStr ''fay'',
                dr_redeemed_at = PStr ''2024-01-01T10:05:00Z'', dr_status = PStr ''FULFILLED'',
                dr_original_input = PStr ''https://www.deezer.com/track/12345'',
                dr_method = ''direct_url''\<rparr>],
            search_requests = [], diagnostics = []\<rparr>
       = search_requests no_requests
   \<and> classify_all [redemption_words, redemption_other_site] no_requests =
       Inr \<lparr>song_requests = [],
            search_requests =
              [\<lparr>sq_search_query = ''please play freebird'', sq_user = PStr ''bob'',
                sq_redeemed_at = PStr ''2024-01-01T10:01:00Z'',
                sq_status = PStr ''UNFULFILLED''\<rparr>],
            diagnostics = [SkippingNonSpotifyURL ''see WWW.youtube.com/watch'']\<rparr>
   \<and> list_all (\<lambda>q. \<not> url_shaped (sq_search_query q))
         [\<lparr>sq_search_query = ''please play freebird'', sq_user = PStr ''bob'',
           sq_redeemed_at = PStr ''2024-01-01T10:01:00Z'',
           sq_status = PStr ''UNFULFILLED''\<rparr>]"
proof -
  have h1: "redemption_other_site ''user_input'' = Some (PStr ''see WWW.youtube.com/watch'')"
    by (simp add: redemption_other_site_def)
  have h2: "url_shaped ''see WWW.youtube.com/watch''"
    by code_simp
  have h3: "parse_spotify_url (PStr ''see WWW.youtube.com/watch'') = None"
    by code_simp
  have h4: "classify_all [redemption_words, redemption_other_site] no_requests =
       Inr \<lparr>song_requests = [],
            search_requests =
              [\<lparr>sq_search_query = ''please play freebird'', sq_user = PStr ''bob'',
                sq_redeemed_at = PStr ''2024-01-01T10:01:00Z'',
                sq_status = PStr ''UNFULFILLED''\<rparr>],
            diagnostics = [SkippingNonSpotifyURL ''see WWW.youtube.com/watch'']\<rparr>"
    by code_simp
  have k1: "redemption_other_service ''user_input''
       = Some (PStr ''https://www.deezer.com/track/12345'')"
    by (simp add: redemption_other_service_def)
  have k2: "url_shaped ''https://www.deezer.com/track/12345''"
    by code_simp
  have k3: "classify redemption_other_service no_requests =
       Inr \<lparr>song_requests =
              [\<lparr>dr_track_id = ''12345'', dr_user = PStr ''fay'',
                dr_redeemed_at = PStr ''2024-01-01T10:05:00Z'', dr_status = PStr ''FULFILLED'',
                dr_original_input = PStr ''https://www.deezer.com/track/12345'',
                dr_method = ''direct_url''\<rparr>],
            search_requests = [], diagnostics = []\<rparr>"
    by code_simp
  have w1: "classify redemption_other_site no_requests =
       Inr (no_requests\<lparr>diagnostics := diagnostics no_requests
              @ [SkippingNonSpotifyURL (take 50 ''see WWW.youtube.com/watch'')]\<rparr>)"
    using url_shaped_never_searched
            [of redemption_other_site "''see WWW.youtube.com/watch''" no_requests] h1 h2 h3
    by blast
  have w3: "search_requests
         \<lparr>song_requests =
              [\<lparr>dr_track_id = ''12345'', dr_user = PStr ''fay'',
                dr_redeemed_at = PStr ''2024-01-01T10:05:00Z'', dr_status = PStr ''FULFILLED'',
                dr_original_input = PStr ''https://www.deezer.com/track/12345'',
                dr_method = ''direct_url''\<rparr>],
            search_requests = [], diagnostics = []\<rparr>
       = search_requests no_requests"
    using url_shaped_never_searched
            [of redemption_other_service "''https://www.deezer.com/track/12345''" no_requests]
          k1 k2 k3
    by blast
  have "\<forall>q \<in> set (search_requests
           \<lparr>song_requests = [],
            search_requests =
              [\<lparr>sq_search_query = ''please play freebird'', sq_user = PStr ''bob'',
                sq_redeemed_at = PStr ''2024-01-01T10:01:00Z'',
                sq_status = PStr ''UNFULFILLED''\<rparr>],
            diagnostics = [SkippingNonSpotifyURL ''see WWW.youtube.com/watch'']\<rparr>).
          \<not> url_shaped (sq_search_query q)"
    using url_shaped_never_searched
            [of _ _ _ _ "[redemption_words, redemption_other_site]"] h4
    by blast
  then have w2: "list_all (\<lambda>q. \<not> url_shaped (sq_search_query q))
         [\<lparr>sq_search_query = ''please play freebird'', sq_user = PStr ''bob'',
           sq_redeemed_at = PStr ''2024-01-01T10:01:00Z'',
           sq_status = PStr ''UNFULFILLED''\<rparr>]"
    by simp
  show ?thesis using h1 h2 h3 w1 k1 k2 k3 w3 h4 w2 by blast
qed

text \<open>
  The claim as stated, for every link that is not a Spotify link, fails: a link to a track
  of another service has a \<open>track/<id>\<close> path, which the parser's third pattern
  matches, so the classifier emits a DirectRequest for it and prints no warning.
\<close>

theorem url_shaped_discard_counterexample:
  "redemption_record redemption_other_service
   \<and> redemption_other_service ''user_input''
       = Some (PStr ''https://www.deezer.com/track/12345'')
   \<and> non_spotify_link ''https://www.deezer.com/track/12345''
   \<and> parse_spotify_url (PStr ''https://www.deezer.com/track/12345'') = Some ''12345''
   \<and> classify redemption_other_service no_requests =
       Inr \<lparr>song_requests =
              [\<lparr>dr_track_id = ''12345'', dr_user = PStr ''fay'',
                dr_redeemed_at = PStr ''2024-01-01T10:05:00Z'', dr_status = PStr ''FULFILLED'',
                dr_original_input = PStr ''https://www.deezer.com/track/12345'',
                dr_method = ''direct_url''\<rparr>],
            search_requests = [], diagnostics = []\<rparr>
   \<and> emitted_direct no_requests
         \<lparr>song_requests =
              [\<lparr>dr_track_id = ''12345'', dr_user = PStr ''fay'',
                dr_redeemed_at = PStr ''2024-01-01T10:05:00Z'', dr_status = PStr ''FULFILLED'',
                dr_original_input = PStr ''https://www.deezer.com/track/12345'',
                dr_method = ''direct_url''\<rparr>],
            search_requests = [], diagnostics = []\<rparr>
   \<and> \<not> discarded no_requests
         \<lparr>song_requests =
              [\<lparr>dr_track_id = ''12345'', dr_user = PStr ''fay'',
                dr_redeemed_at = PStr ''2024-01-01T10:05:00Z'', dr_status = PStr ''FULFILLED'',
                dr_original_input = PStr ''https://www.deezer.com/track/12345'',
                dr_method = ''direct_url''\<rparr>],
            search_requests = [], diagnostics = []\<rparr>"
proof -
  have a: "redemption_record redemption_other_service"
    by (simp add: redemption_record_def redemption_other_service_def)
  have b: "redemption_other_service ''user_input''
       = Some (PStr ''https://www.deezer.com/track/12345'')"
    by (simp add: redemption_other_service_def)
  have c: "non_spotify_link ''https://www.deezer.com/track/12345''"
    by code_simp
  have d: "parse_spotify_url (PStr ''https://www.deezer.com/track/12345'') = Some ''12345''"
    by code_simp
  have e: "classify redemption_other_service no_requests =
       Inr \<lparr>song_requests =
              [\<lparr>dr_track_id = ''12345'', dr_user = PStr ''fay'',
                dr_redeemed_at = PStr ''2024-01-01T10:05:00Z'', dr_status = PStr ''FULFILLED'',
                dr_original_input = PStr ''https://www.deezer.com/track/12345'',
                dr_method = ''direct_url''\<rparr>],
            search_requests = [], diagnostics = []\<rparr>"
    by code_simp
  have f: "emitted_direct no_requests
         \<lparr>song_requests =
              [\<lparr>dr_track_id = ''12345'', dr_user = PStr ''fay'',
                dr_redeemed_at = PStr ''2024-01-01T10:05:00Z'', dr_status = PStr ''FULFILLED'',
                dr_original_input = PStr ''https://www.deezer.com/track/12345'',
                dr_method = ''direct_url''\<rparr>],
            search_requests = [], diagnostics = []\<rparr>"
    by (simp add: emitted_direct_def no_requests_def)
  have g: "\<not> discarded no_requests
         \<lparr>song_requests =
              [\<lparr>dr_track_id = ''12345'', dr_user = PStr ''fay'',
                dr_redeemed_at = PStr ''2024-01-01T10:05:00Z'', dr_status = PStr ''FULFILLED'',
                dr_original_input = PStr ''https://www.deezer.com/track/12345'',
                dr_method = ''direct_url''\<rparr>],
            search_requests = [], diagnostics = []\<rparr>"
    by (simp add: discarded_def no_requests_def)
  show ?thesis using a b c d e f g by blast
qed

subsection \<open>C9: a redemption without the \<open>user_input\<close> field\<close>

text \<open>
  Claim C9. For a redemption record (one that carries its requester) without the
  \<open>user_input\<close> field, the classifier takes the empty string as the text, returns
  without raising, and discards the record with the warning for an empty input; no
  request is emitted.
\<close>

theorem missing_user_input_discarded:
  "r ''user_input'' = None \<and> r ''user_name'' = Some u \<longrightarrow>
     dict_get r ''user_input'' (PStr []) = PStr []
     \<and> classify r acc = Inr (acc\<lparr>diagnostics := diagnostics acc @ [EmptyInputFrom u]\<rparr>)
     \<and> discarded acc (acc\<lparr>diagnostics := diagnostics acc @ [EmptyInputFrom u]\<rparr>)"
proof
  assume a: "r ''user_input'' = None \<and> r ''user_name'' = Some u"
  then have g: "dict_get r ''user_input'' (PStr []) = PStr []"
    by (simp add: dict_get_def)
  have p: "parse_spotify_url (PStr []) = None"
    by (simp add: parse_spotify_url_def)
  have n: "\<not> url_shaped []"
    by (simp add: url_shaped_def lower_def)
  have s: "strip [] = []"
    by (simp add: strip_def)
  have "classify r acc = classify_text r (PStr []) acc"
    using classify_no_track [of r acc] p by (simp add: g)
  also have "\<dots> = Inr (acc\<lparr>diagnostics := diagnostics acc @ [EmptyInputFrom u]\<rparr>)"
    using classify_text_empty [of "[]" r u acc] n s a by simp
  finally have c: "classify r acc
      = Inr (acc\<lparr>diagnostics := diagnostics acc @ [EmptyInputFrom u]\<rparr>)" .
  have d: "discarded acc (acc\<lparr>diagnostics := diagnostics acc @ [EmptyInputFrom u]\<rparr>)"
    by (simp add: discarded_def)
  show "dict_get r ''user_input'' (PStr []) = PStr []
     \<and> classify r acc = Inr (acc\<lparr>diagnostics := diagnostics acc @ [EmptyInputFrom u]\<rparr>)
     \<and> discarded acc (acc\<lparr>diagnostics := diagnostics acc @ [EmptyInputFrom u]\<rparr>)"
    using g c d by blast
qed

theorem missing_user_input_discarded_witness:
  "redemption_no_input ''user_input'' = None
   \<and> redemption_no_input ''user_name'' = Some (PStr ''eve'')
   \<and> classify redemption_no_input no_requests =
       Inr (no_requests\<lparr>diagnostics := diagnostics no_requests @ [EmptyInputFrom (PStr ''eve'')]\<rparr>)"
proof -
  have h: "redemption_no_input ''user_input'' = None"
    "redemption_no_input ''user_name'' = Some (PStr ''eve'')"
    by (simp_all add: redemption_no_input_def)
  show ?thesis
    using missing_user_input_discarded [of redemption_no_input "PStr ''eve''" no_requests] h
    by blast
qed

subsection \<open>C5: batches of at most 100, and the counters\<close>

text \<open>
  Claim C5. The writer submits the URI sequence as consecutive batches of at most 100
  URIs, in input order: the batches are the partition of the sequence into chunks of 100,
  their concatenation is the sequence, and none is empty or longer than 100; for 150
  URIs there are exactly two calls, of sizes 100 then 50. After the loop the added count
  plus the number of failed URIs is the length of the sequence, and the URIs of the
  batches that went through together with the failed URIs are the sequence as a
  multiset, so that each URI of a duplicate-free sequence is counted once, as added or as
  failed. The same holds for the summary of \<open>create_spotify_playlist\<close> over the
  assembled sequence.
\<close>

theorem writer_batches_and_counts:
  "map fst (submitted (add_all_tracks env pid uris)) = chunks batch_size uris
   \<and> concat (map fst (submitted (add_all_tracks env pid uris))) = uris
   \<and> (\<forall>b \<in> set (map fst (submitted (add_all_tracks env pid uris))).
         b \<noteq> [] \<and> length b \<le> 100)
   \<and> (length uris = 150 \<longrightarrow>
         map length (map fst (submitted (add_all_tracks env pid uris))) = [100, 50])
   \<and> added_count (add_all_tracks env pid uris)
       + length (failed_tracks (add_all_tracks env pid uris)) = length uris
   \<and> added_count (add_all_tracks env pid uris)
       = length (added_tracks (add_all_tracks env pid uris))
   \<and> mset (added_tracks (add_all_tracks env pid uris))
       + mset (failed_tracks (add_all_tracks env pid uris)) = mset uris
   \<and> (distinct uris \<longrightarrow>
         distinct (added_tracks (add_all_tracks env pid uris)
                   @ failed_tracks (add_all_tracks env pid uris)))
   \<and> (create_spotify_playlist env song_reqs search_reqs name = (Inr s, calls) \<longrightarrow>
         sm_added s + length (sm_failed s)
           = length (all_track_uris song_reqs
                       (search_results (search_all env search_reqs search_init))))"
proof (intro conjI impI)
  show "map fst (submitted (add_all_tracks env pid uris)) = chunks batch_size uris"
    by (rule writer_submitted)
  show "concat (map fst (submitted (add_all_tracks env pid uris))) = uris"
    by (rule writer_concat)
  show "\<forall>b \<in> set (map fst (submitted (add_all_tracks env pid uris))).
          b \<noteq> [] \<and> length b \<le> 100"
    using writer_batch_sizes [of _ env pid uris] by blast
  show "added_count (add_all_tracks env pid uris)
       + length (failed_tracks (add_all_tracks env pid uris)) = length uris"
    by (rule writer_total)
  show "added_count (add_all_tracks env pid uris)
       = length (added_tracks (add_all_tracks env pid uris))"
    using writer_counters [of env pid uris] by (rule conjunct1)
  show "mset (added_tracks (add_all_tracks env pid uris))
       + mset (failed_tracks (add_all_tracks env pid uris)) = mset uris"
    by (rule writer_mset)
next
  assume "length uris = 150"
  then show "map length (map fst (submitted (add_all_tracks env pid uris))) = [100, 50]"
    by (rule writer_150)
next
  assume "distinct uris"
  then show "distinct (added_tracks (add_all_tracks env pid uris)
                   @ failed_tracks (add_all_tracks env pid uris))"
    by (rule writer_distinct)
next
  assume "create_spotify_playlist env song_reqs search_reqs name = (Inr s, calls)"
  then show "sm_added s + length (sm_failed s)
           = length (all_track_uris song_reqs
                       (search_results (search_all env search_reqs search_init)))"
    by (rule create_summary)
qed

theorem writer_batches_and_counts_witness:
  "length uris_150 = 150 \<and> distinct uris_150
   \<and> map fst (submitted (add_all_tracks spotify_flaky ''pl1'' uris_150))
       = [take 100 uris_150, drop 100 uris_150]
   \<and> length (take 100 uris_150) \<le> 100 \<and> length (drop 100 uris_150) \<le> 100
   \<and> map length (map fst (submitted (add_all_tracks spotify_flaky ''pl1'' uris_150)))
       = [100, 50]
   \<and> added_count (add_all_tracks spotify_flaky ''pl1'' uris_150)
       + length (failed_tracks (add_all_tracks spotify_flaky ''pl1'' uris_150)) = 150
   \<and> distinct (added_tracks (add_all_tracks spotify_flaky ''pl1'' uris_150)
               @ failed_tracks (add_all_tracks spotify_flaky ''pl1'' uris_150))
   \<and> create_spotify_playlist spotify_flaky [link_request ''x1''] [] ''chan'' =
       (Inr \<lparr>sm_playlist = \<lparr>pl_id = ''pl1'', pl_name = ''chan - Community Song Requests'',
                pl_url = ''https://open.spotify.com/playlist/pl1''\<rparr>,
              sm_direct = 1, sm_search = 0, sm_added = 1, sm_failed = []\<rparr>,
        [CurrentUser,
         UserPlaylistCreate ''user1'' ''chan - Community Song Requests'' True
           ''Community requested songs from Twitch channel points. Created on 2024-01-01'',
         PlaylistAddItems ''pl1'' [''spotify:track:x1'']])
   \<and> length (all_track_uris [link_request ''x1'']
                (search_results (search_all spotify_flaky [] search_init))) = 1"
proof -
  have c: "create_spotify_playlist spotify_flaky [link_request ''x1''] [] ''chan'' =
       (Inr \<lparr>sm_playlist = \<lparr>pl_id = ''pl1'', pl_name = ''chan - Community Song Requests'',
                pl_url = ''https://open.spotify.com/playlist/pl1''\<rparr>,
              sm_direct = 1, sm_search = 0, sm_added = 1, sm_failed = []\<rparr>,
        [CurrentUser,
         UserPlaylistCreate ''user1'' ''chan - Community Song Requests'' True
           ''Community requested songs from Twitch channel points. Created on 2024-01-01'',
         PlaylistAddItems ''pl1'' [''spotify:track:x1'']])"
    by code_simp
  note t = writer_batches_and_counts
            [of spotify_flaky "''pl1''" uris_150 "[link_request ''x1'']" "[]" "''chan''"
                "\<lparr>sm_playlist = \<lparr>pl_id = ''pl1'', pl_name = ''chan - Community Song Requests'',
                     pl_url = ''https://open.spotify.com/playlist/pl1''\<rparr>,
                   sm_direct = 1, sm_search = 0, sm_added = 1, sm_failed = []\<rparr>"
                "[CurrentUser,
                  UserPlaylistCreate ''user1'' ''chan - Community Song Requests'' True
                    ''Community requested songs from Twitch channel points. Created on 2024-01-01'',
                  PlaylistAddItems ''pl1'' [''spotify:track:x1'']]"]
  have w1: "map length (map fst (submitted (add_all_tracks spotify_flaky ''pl1'' uris_150)))
       = [100, 50]"
    using t uris_150_length by blast
  have w0: "map fst (submitted (add_all_tracks spotify_flaky ''pl1'' uris_150))
       = [take 100 uris_150, drop 100 uris_150]"
    using t chunks_150 [OF uris_150_length] by (simp add: batch_size_def)
  have "\<forall>b \<in> set (map fst (submitted (add_all_tracks spotify_flaky ''pl1'' uris_150))).
          b \<noteq> [] \<and> length b \<le> 100"
    using t by blast
  then have w5: "length (take 100 uris_150) \<le> 100 \<and> length (drop 100 uris_150) \<le> 100"
    unfolding w0 by simp
  have w2: "added_count (add_all_tracks spotify_flaky ''pl1'' uris_150)
       + length (failed_tracks (add_all_tracks spotify_flaky ''pl1'' uris_150)) = 150"
    using t uris_150_length by simp
  have w3: "distinct (added_tracks (add_all_tracks spotify_flaky ''pl1'' uris_150)
               @ failed_tracks (add_all_tracks spotify_flaky ''pl1'' uris_150))"
    using t uris_150_distinct by blast
  have w4: "length (all_track_uris [link_request ''x1'']
                (search_results (search_all spotify_flaky [] search_init))) = 1"
    using t c by simp
  show ?thesis
    using uris_150_length uris_150_distinct w0 w5 w1 w2 w3 w4 c by blast
qed

subsection \<open>C6: a failing search or batch does not stop the run\<close>

text \<open>
  Claim C6. The resolver searches every query, in order, whatever the earlier searches
  did, and its results are the hits of the queries, in order; a query whose search raises
  or returns an empty list contributes no SearchResult, and the results are those of the
  queries before it followed by those of the queries after it. The writer submits every
  batch of the partition whatever the earlier calls did; a batch whose call raises is
  recorded, with all its URIs, as failed, and a batch whose call returns stays counted as
  added.
\<close>

theorem per_item_failures_isolated:
  "searched (search_all env reqs search_init) = map sq_search_query reqs
   \<and> search_results (search_all env reqs search_init)
       = List.map_filter (\<lambda>(k, r). search_hit env k r) (enumerate 0 reqs)
   \<and> (sp_search env (length before) (sq_search_query req) = Inl e
        \<or> sp_search env (length before) (sq_search_query req) = Inr []
       \<longrightarrow> search_hit env (length before) req = None
           \<and> searched (search_all env (before @ req # rest) search_init)
               = map sq_search_query (before @ req # rest)
           \<and> search_results (search_all env (before @ req # rest) search_init)
               = List.map_filter (\<lambda>(k, r). search_hit env k r) (enumerate 0 before)
                 @ List.map_filter (\<lambda>(k, r). search_hit env k r)
                     (enumerate (Suc (length before)) rest))
   \<and> map fst (submitted (add_all_tracks env pid uris)) = chunks batch_size uris
   \<and> (k < length (chunks batch_size uris)
        \<and> sp_playlist_add_items env k pid (chunks batch_size uris ! k) = Some e'
       \<longrightarrow> submitted (add_all_tracks env pid uris) ! k = (chunks batch_size uris ! k, False)
           \<and> set (chunks batch_size uris ! k) \<subseteq> set (failed_tracks (add_all_tracks env pid uris)))
   \<and> (k < length (chunks batch_size uris)
        \<and> sp_playlist_add_items env k pid (chunks batch_size uris ! k) = None
       \<longrightarrow> submitted (add_all_tracks env pid uris) ! k = (chunks batch_size uris ! k, True)
           \<and> set (chunks batch_size uris ! k) \<subseteq> set (added_tracks (add_all_tracks env pid uris)))
   \<and> failed_tracks (add_all_tracks env pid uris) = raised_tracks (add_all_tracks env pid uris)
   \<and> added_count (add_all_tracks env pid uris)
       = length (added_tracks (add_all_tracks env pid uris))"
proof (intro conjI impI)
  show "searched (search_all env reqs search_init) = map sq_search_query reqs"
    using search_all_init [of env reqs] by (rule conjunct1)
  show "search_results (search_all env reqs search_init)
       = List.map_filter (\<lambda>(k, r). search_hit env k r) (enumerate 0 reqs)"
    using search_all_init [of env reqs] by (rule conjunct2)
  show "map fst (submitted (add_all_tracks env pid uris)) = chunks batch_size uris"
    by (rule writer_submitted)
  show "failed_tracks (add_all_tracks env pid uris) = raised_tracks (add_all_tracks env pid uris)"
    using writer_counters [of env pid uris] by (rule conjunct2)
  show "added_count (add_all_tracks env pid uris)
       = length (added_tracks (add_all_tracks env pid uris))"
    using writer_counters [of env pid uris] by (rule conjunct1)
next
  assume h: "sp_search env (length before) (sq_search_query req) = Inl e
        \<or> sp_search env (length before) (sq_search_query req) = Inr []"
  show m: "search_hit env (length before) req = None"
    by (rule search_hit_miss [OF h])
  show "searched (search_all env (before @ req # rest) search_init)
               = map sq_search_query (before @ req # rest)"
    using search_all_init [of env "before @ req # rest"] by (rule conjunct1)
  show "search_results (search_all env (before @ req # rest) search_init)
               = List.map_filter (\<lambda>(k, r). search_hit env k r) (enumerate 0 before)
                 @ List.map_filter (\<lambda>(k, r). search_hit env k r)
                     (enumerate (Suc (length before)) rest)"
    by (rule search_all_skip [OF m])
next
  assume h: "k < length (chunks batch_size uris)
        \<and> sp_playlist_add_items env k pid (chunks batch_size uris ! k) = Some e'"
  then have k: "k < length (chunks batch_size uris)" by (rule conjunct1)
  from h have o: "sp_playlist_add_items env k pid (chunks batch_size uris ! k) = Some e'"
    by (rule conjunct2)
  show n: "submitted (add_all_tracks env pid uris) ! k = (chunks batch_size uris ! k, False)"
    using writer_nth [OF k, of env pid] by (simp add: o)
  have "submitted (add_all_tracks env pid uris) ! k \<in> set (submitted (add_all_tracks env pid uris))"
    using conjunct1 [OF writer_nth [OF k, of env pid]] by (rule nth_mem)
  then have "set (chunks batch_size uris ! k) \<subseteq> set (raised_tracks (add_all_tracks env pid uris))"
    unfolding n by (rule raised_tracks_member)
  then show "set (chunks batch_size uris ! k) \<subseteq> set (failed_tracks (add_all_tracks env pid uris))"
    using writer_counters [of env pid uris] by simp
next
  assume h: "k < length (chunks batch_size uris)
        \<and> sp_playlist_add_items env k pid (chunks batch_size uris ! k) = None"
  then have k: "k < length (chunks batch_size uris)" by (rule conjunct1)
  from h have o: "sp_playlist_add_items env k pid (chunks batch_size uris ! k) = None"
    by (rule conjunct2)
  show n: "submitted (add_all_tracks env pid uris) ! k = (chunks batch_size uris ! k, True)"
    using writer_nth [OF k, of env pid] by (simp add: o)
  have "submitted (add_all_tracks env pid uris) ! k \<in> set (submitted (add_all_tracks env pid uris))"
    using conjunct1 [OF writer_nth [OF k, of env pid]] by (rule nth_mem)
  then show "set (chunks batch_size uris ! k) \<subseteq> set (added_tracks (add_all_tracks env pid uris))"
    unfolding n by (rule added_tracks_member)
qed

theorem per_item_failures_isolated_witness:
  "sp_search spotify_flaky (length ([] :: search_request list))
       (sq_search_query (query_request ''one'')) = Inl (ServiceError ''timeout'')
   \<and> search_hit spotify_flaky (length ([] :: search_request list)) (query_request ''one'') = None
   \<and> searched (search_all spotify_flaky
         ([] @ query_request ''one'' # [query_request ''two'', query_request ''three''])
         search_init)
       = map sq_search_query
           ([] @ query_request ''one'' # [query_request ''two'', query_request ''three''])
   \<and> search_results (search_all spotify_flaky
         [query_request ''one'', query_request ''two'', query_request ''three''] search_init)
       = [\<lparr>res_track_id = ''three'', res_track_uri = ''spotify:track:three'',
           res_track_name = ''three'', res_artist = ''artist'', res_user = PStr ''bob'',
           res_search_query = ''three'', res_method = ''search''\<rparr>]
   \<and> 1 < length (chunks batch_size uris_150)
   \<and> sp_playlist_add_items spotify_flaky 1 ''pl1'' (chunks batch_size uris_150 ! 1)
       = Some (ServiceError ''502'')
   \<and> submitted (add_all_tracks spotify_flaky ''pl1'' uris_150) ! 1
       = (chunks batch_size uris_150 ! 1, False)
   \<and> set (chunks batch_size uris_150 ! 1)
       \<subseteq> set (failed_tracks (add_all_tracks spotify_flaky ''pl1'' uris_150))
   \<and> length (submitted (add_all_tracks spotify_flaky ''pl1'' uris_150)) = 2
   \<and> 0 < length (chunks batch_size uris_150)
   \<and> sp_playlist_add_items spotify_flaky 0 ''pl1'' (chunks batch_size uris_150 ! 0) = None
   \<and> submitted (add_all_tracks spotify_flaky ''pl1'' uris_150) ! 0
       = (chunks batch_size uris_150 ! 0, True)
   \<and> set (chunks batch_size uris_150 ! 0)
       \<subseteq> set (added_tracks (add_all_tracks spotify_flaky ''pl1'' uris_150))"
proof -
  have h1: "sp_search spotify_flaky (length ([] :: search_request list))
       (sq_search_query (query_request ''one'')) = Inl (ServiceError ''timeout'')"
    by (simp add: spotify_flaky_def)
  have hk: "1 < length (chunks batch_size uris_150)"
    using chunks_150 [OF uris_150_length] by (simp add: batch_size_def)
  have h2: "sp_playlist_add_items spotify_flaky 1 ''pl1'' (chunks batch_size uris_150 ! 1)
       = Some (ServiceError ''502'')"
    by (simp add: spotify_flaky_def)
  have ev: "search_results (search_all spotify_flaky
         [query_request ''one'', query_request ''two'', query_request ''three''] search_init)
       = [\<lparr>res_track_id = ''three'', res_track_uri = ''spotify:track:three'',
           res_track_name = ''three'', res_artist = ''artist'', res_user = PStr ''bob'',
           res_search_query = ''three'', res_method = ''search''\<rparr>]"
    by code_simp
  note t = per_item_failures_isolated
      [of spotify_flaky "[query_request ''one'', query_request ''two'', query_request ''three'']"
          "[]" "query_request ''one''" "ServiceError ''timeout''"
          "[query_request ''two'', query_request ''three'']" "''pl1''" uris_150 1
          "ServiceError ''502''"]
  have a: "search_hit spotify_flaky (length ([] :: search_request list)) (query_request ''one'')
             = None"
    using t h1 by blast
  have b: "searched (search_all spotify_flaky
         ([] @ query_request ''one'' # [query_request ''two'', query_request ''three''])
         search_init)
       = map sq_search_query
           ([] @ query_request ''one'' # [query_request ''two'', query_request ''three''])"
    using t h1 by blast
  have c: "submitted (add_all_tracks spotify_flaky ''pl1'' uris_150) ! 1
       = (chunks batch_size uris_150 ! 1, False)"
    using t hk h2 by blast
  have d: "set (chunks batch_size uris_150 ! 1)
       \<subseteq> set (failed_tracks (add_all_tracks spotify_flaky ''pl1'' uris_150))"
    using t hk h2 by blast
  have m: "map fst (submitted (add_all_tracks spotify_flaky ''pl1'' uris_150))
       = chunks batch_size uris_150"
    using t by blast
  have l: "length (submitted (add_all_tracks spotify_flaky ''pl1'' uris_150)) = 2"
    using arg_cong [OF m, of length] chunks_150 [OF uris_150_length]
    by (simp add: batch_size_def)
  have hk0: "0 < length (chunks batch_size uris_150)"
    using hk by (rule less_trans [OF zero_less_one])
  have h3: "sp_playlist_add_items spotify_flaky 0 ''pl1'' (chunks batch_size uris_150 ! 0) = None"
    by (simp add: spotify_flaky_def)
  note t0 = per_item_failures_isolated
      [of spotify_flaky "[]" "[]" "query_request ''one''" "ServiceError ''timeout''" "[]"
          "''pl1''" uris_150 0]
  have c0: "submitted (add_all_tracks spotify_flaky ''pl1'' uris_150) ! 0
       = (chunks batch_size uris_150 ! 0, True)"
    using t0 hk0 h3 by blast
  have d0: "set (chunks batch_size uris_150 ! 0)
       \<subseteq> set (added_tracks (add_all_tracks spotify_flaky ''pl1'' uris_150))"
    using t0 hk0 h3 by blast
  show ?thesis
    using h1 a b ev hk h2 c d l hk0 h3 c0 d0 by blast
qed

subsection \<open>C7: run-level failures create no playlist\<close>

text \<open>
  Claim C7. With a channel name given: if every callback that arrives within the 120 ticks
  is a denial or carries a wrong \<open>state\<close> (none arriving at all is the timeout), the
  authorization flow returns failure; whenever the flow returns failure, and whenever the
  fetch finds no DirectRequest and no SearchRequest, \<open>main\<close> ends with the report that
  no valid song requests were found and makes no call to the Spotify client. Conversely,
  any call to the Spotify client, the playlist creation included, is made only after a
  successful authorization and with at least one request found.
\<close>

theorem run_level_failures_create_no_playlist:
  "(strip input_line \<noteq> [] \<and> au_server_start (tw_auth tw) = None
      \<and> (\<forall>k < 120. \<forall>request \<in> set (au_arrivals (tw_auth tw) k).
            denied_or_mismatched (au_token_urlsafe (tw_auth tw)) request)
     \<longrightarrow> fst (start_oauth_flow (tw_auth tw) oauth_init) = Inr False
         \<and> main input_line tw sp = (Returns NoValidRequests, []))
   \<and> (strip input_line \<noteq> [] \<and> fst (start_oauth_flow (tw_auth tw) oauth_init) = Inr False
     \<longrightarrow> main input_line tw sp = (Returns NoValidRequests, []))
   \<and> (strip input_line \<noteq> []
      \<and> get_song_requests_from_twitch tw (strip input_line) = Returns (ResultPair [] [])
     \<longrightarrow> main input_line tw sp = (Returns NoValidRequests, []))
   \<and> (snd (main input_line tw sp) \<noteq> []
     \<longrightarrow> fst (start_oauth_flow (tw_auth tw) oauth_init) = Inr True
         \<and> (\<exists>song search.
               get_song_requests_from_twitch tw (strip input_line)
                 = Returns (ResultPair song search)
               \<and> (song \<noteq> [] \<or> search \<noteq> [])))"
proof (intro conjI impI)
  assume h: "strip input_line \<noteq> [] \<and> au_server_start (tw_auth tw) = None
      \<and> (\<forall>k < 120. \<forall>request \<in> set (au_arrivals (tw_auth tw) k).
            denied_or_mismatched (au_token_urlsafe (tw_auth tw)) request)"
  have "\<not> truthy (access_token oauth_init)" by (simp add: oauth_init_def)
  with h have "start_oauth_flow (tw_auth tw) oauth_init =
      (Inr False, oauth_init\<lparr>state := PStr (au_token_urlsafe (tw_auth tw))\<rparr>,
       map Slept [0 ..< 120] @ [CleanedUp, PrintedTimeout])"
    by (intro start_oauth_flow_rejected) blast+
  then show f: "fst (start_oauth_flow (tw_auth tw) oauth_init) = Inr False" by simp
  from h fetch_auth_failed [OF f, of "strip input_line"]
  show "main input_line tw sp = (Returns NoValidRequests, [])"
    by (intro main_no_requests) blast+
next
  assume h: "strip input_line \<noteq> []
      \<and> fst (start_oauth_flow (tw_auth tw) oauth_init) = Inr False"
  then have "get_song_requests_from_twitch tw (strip input_line) = Returns (ResultPair [] [])"
    by (intro fetch_auth_failed) blast
  with h show "main input_line tw sp = (Returns NoValidRequests, [])"
    by (intro main_no_requests) blast+
next
  assume h: "strip input_line \<noteq> []
      \<and> get_song_requests_from_twitch tw (strip input_line) = Returns (ResultPair [] [])"
  then show "main input_line tw sp = (Returns NoValidRequests, [])"
    by (intro main_no_requests) blast+
next
  assume h: "snd (main input_line tw sp) \<noteq> []"
  from main_calls_need_requests [OF h] obtain song search where
    r: "get_song_requests_from_twitch tw (strip input_line) = Returns (ResultPair song search)"
    and n: "song \<noteq> [] \<or> search \<noteq> []"
    by blast
  show "fst (start_oauth_flow (tw_auth tw) oauth_init) = Inr True"
    by (rule fetch_requests_need_token [OF r n])
  from r n show "\<exists>song search.
               get_song_requests_from_twitch tw (strip input_line)
                 = Returns (ResultPair song search)
               \<and> (song \<noteq> [] \<or> search \<noteq> [])"
    by blast
qed

theorem run_level_failures_create_no_playlist_witness:
  "strip ''  somechannel '' \<noteq> [] \<and> au_server_start (tw_auth twitch_denied) = None
   \<and> fst (start_oauth_flow (tw_auth twitch_denied) oauth_init) = Inr False
   \<and> main ''  somechannel '' twitch_denied spotify_flaky = (Returns NoValidRequests, [])
   \<and> get_song_requests_from_twitch twitch_only_blank (strip ''  somechannel '')
       = Returns (ResultPair [] [])
   \<and> main ''  somechannel '' twitch_only_blank spotify_flaky = (Returns NoValidRequests, [])
   \<and> snd (main ''  somechannel '' twitch_granted spotify_flaky) \<noteq> []
   \<and> fst (start_oauth_flow (tw_auth twitch_granted) oauth_init) = Inr True"
proof -
  have s: "strip ''  somechannel '' \<noteq> []" by code_simp
  have d0: "au_server_start (tw_auth twitch_denied) = None"
    by (simp add: twitch_denied_def auth_denied_def)
  have d1: "\<forall>k < 120. \<forall>request \<in> set (au_arrivals (tw_auth twitch_denied) k).
            denied_or_mismatched (au_token_urlsafe (tw_auth twitch_denied)) request"
    by (simp add: twitch_denied_def auth_denied_def denied_or_mismatched_def params_get_def)
  have b: "get_song_requests_from_twitch twitch_only_blank (strip ''  somechannel '')
       = Returns (ResultPair [] [])"
    by code_simp
  have g: "snd (main ''  somechannel '' twitch_granted spotify_flaky) \<noteq> []"
    by code_simp
  have w1: "fst (start_oauth_flow (tw_auth twitch_denied) oauth_init) = Inr False
         \<and> main ''  somechannel '' twitch_denied spotify_flaky = (Returns NoValidRequests, [])"
    using run_level_failures_create_no_playlist
            [of "''  somechannel ''" twitch_denied spotify_flaky] s d0 d1
    by blast
  have w2: "main ''  somechannel '' twitch_only_blank spotify_flaky
              = (Returns NoValidRequests, [])"
    using run_level_failures_create_no_playlist
            [of "''  somechannel ''" twitch_only_blank spotify_flaky] s b
    by blast
  have w3: "fst (start_oauth_flow (tw_auth twitch_granted) oauth_init) = Inr True"
    using run_level_failures_create_no_playlist
            [of "''  somechannel ''" twitch_granted spotify_flaky] g
    by blast
  show ?thesis using s d0 w1 b w2 g w3 by blast
qed

subsection \<open>C10: the fetch-failure branch of \<open>main\<close>\<close>

text \<open>
  Claim C10. Whenever \<open>get_song_requests_from_twitch\<close> returns, it returns a pair of
  lists, which \<open>if not result\<close> does not take for false; it returns the pair of two empty
  lists when the authorization fails, when the broadcaster is not found and when the
  reward is not found. So \<open>main\<close> never ends through its fetch-failure branch, and each of
  these failures ends through the report that no valid song requests were found, without
  a call to the Spotify client.
\<close>

theorem fetch_failure_branch_unreachable:
  "(get_song_requests_from_twitch tw login = Returns result
     \<longrightarrow> (\<exists>song search. result = ResultPair song search) \<and> result_truthy result)
   \<and> fst (main input_line tw sp) \<noteq> Returns FetchFailed
   \<and> (fst (start_oauth_flow (tw_auth tw) oauth_init) = Inr False
     \<longrightarrow> get_song_requests_from_twitch tw login = Returns (ResultPair [] []))
   \<and> (fst (start_oauth_flow (tw_auth tw) oauth_init) = Inr True
      \<and> tw_get_broadcaster_id tw login = Inr b \<and> \<not> truthy b
     \<longrightarrow> get_song_requests_from_twitch tw login = Returns (ResultPair [] []))
   \<and> (fst (start_oauth_flow (tw_auth tw) oauth_init) = Inr True
      \<and> tw_get_broadcaster_id tw login = Inr b \<and> truthy b
      \<and> tw_get_custom_rewards tw b = Inr rewards \<and> find_song_reward rewards = Inr None
     \<longrightarrow> get_song_requests_from_twitch tw login = Returns (ResultPair [] []))
   \<and> (strip input_line \<noteq> []
      \<and> get_song_requests_from_twitch tw (strip input_line) = Returns (ResultPair [] [])
     \<longrightarrow> main input_line tw sp = (Returns NoValidRequests, []))"
proof (intro conjI impI)
  assume r: "get_song_requests_from_twitch tw login = Returns result"
  from fetch_returns_pair [OF r] show p: "\<exists>song search. result = ResultPair song search" .
  then show "result_truthy result" by auto
next
  show "fst (main input_line tw sp) \<noteq> Returns FetchFailed"
    by (rule main_never_fetch_failed)
next
  assume "fst (start_oauth_flow (tw_auth tw) oauth_init) = Inr False"
  then show "get_song_requests_from_twitch tw login = Returns (ResultPair [] [])"
    by (rule fetch_auth_failed)
next
  assume "fst (start_oauth_flow (tw_auth tw) oauth_init) = Inr True
      \<and> tw_get_broadcaster_id tw login = Inr b \<and> \<not> truthy b"
  then show "get_song_requests_from_twitch tw login = Returns (ResultPair [] [])"
    by (intro fetch_no_broadcaster [of tw login b]) blast+
next
  assume "fst (start_oauth_flow (tw_auth tw) oauth_init) = Inr True
      \<and> tw_get_broadcaster_id tw login = Inr b \<and> truthy b
      \<and> tw_get_custom_rewards tw b = Inr rewards \<and> find_song_reward rewards = Inr None"
  then show "get_song_requests_from_twitch tw login = Returns (ResultPair [] [])"
    by (intro fetch_no_reward [of tw login b rewards]) blast+
next
  assume "strip input_line \<noteq> []
      \<and> get_song_requests_from_twitch tw (strip input_line) = Returns (ResultPair [] [])"
  then show "main input_line tw sp = (Returns NoValidRequests, [])"
    by (intro main_no_requests) blast+
qed

theorem fetch_failure_branch_unreachable_witness:
  "fst (start_oauth_flow (tw_auth twitch_denied) oauth_init) = Inr False
   \<and> get_song_requests_from_twitch twitch_denied ''somechannel'' = Returns (ResultPair [] [])
   \<and> fst (start_oauth_flow (tw_auth twitch_no_broadcaster) oauth_init) = Inr True
   \<and> tw_get_broadcaster_id twitch_no_broadcaster ''somechannel'' = Inr PNone
   \<and> get_song_requests_from_twitch twitch_no_broadcaster ''somechannel''
       = Returns (ResultPair [] [])
   \<and> find_song_reward [[''title'' \<mapsto> PStr ''Hydrate'', ''id'' \<mapsto> PStr ''r0'']] = Inr None
   \<and> get_song_requests_from_twitch twitch_no_reward ''somechannel''
       = Returns (ResultPair [] [])
   \<and> strip ''somechannel'' \<noteq> []
   \<and> main ''somechannel'' twitch_no_reward spotify_flaky = (Returns NoValidRequests, [])
   \<and> get_song_requests_from_twitch twitch_granted ''somechannel''
       = Returns (ResultPair
           [\<lparr>dr_track_id = ''abc123'', dr_user = PStr ''ann'',
             dr_redeemed_at = PStr ''2024-01-01T10:00:00Z'', dr_status = PStr ''FULFILLED'',
             dr_original_input = PStr ''https://open.spotify.com/track/abc123'',
             dr_method = ''direct_url''\<rparr>]
           [\<lparr>sq_search_query = ''please play freebird'', sq_user = PStr ''bob'',
             sq_redeemed_at = PStr ''2024-01-01T10:01:00Z'', sq_status = PStr ''UNFULFILLED''\<rparr>])
   \<and> result_truthy (ResultPair
           [\<lparr>dr_track_id = ''abc123'', dr_user = PStr ''ann'',
             dr_redeemed_at = PStr ''2024-01-01T10:00:00Z'', dr_status = PStr ''FULFILLED'',
             dr_original_input = PStr ''https://open.spotify.com/track/abc123'',
             dr_method = ''direct_url''\<rparr>]
           [\<lparr>sq_search_query = ''please play freebird'', sq_user = PStr ''bob'',
             sq_redeemed_at = PStr ''2024-01-01T10:01:00Z'', sq_status = PStr ''UNFULFILLED''\<rparr>])"
proof -
  have a1: "fst (start_oauth_flow (tw_auth twitch_denied) oauth_init) = Inr False"
    by code_simp
  have a2: "fst (start_oauth_flow (tw_auth twitch_no_broadcaster) oauth_init) = Inr True"
    by code_simp
  have a3: "tw_get_broadcaster_id twitch_no_broadcaster ''somechannel'' = Inr PNone"
    by (simp add: twitch_no_broadcaster_def)
  have a4: "fst (start_oauth_flow (tw_auth twitch_no_reward) oauth_init) = Inr True"
    by code_simp
  have a5: "tw_get_broadcaster_id twitch_no_reward ''somechannel'' = Inr (PStr ''42'')"
    by (simp add: twitch_no_reward_def twitch_granted_def)
  have a6: "tw_get_custom_rewards twitch_no_reward (PStr ''42'')
              = Inr [[''title'' \<mapsto> PStr ''Hydrate'', ''id'' \<mapsto> PStr ''r0'']]"
    by (simp add: twitch_no_reward_def)
  have ne: "lower ''Hydrate'' \<noteq> lower REWARD_NAME"
  proof
    assume "lower ''Hydrate'' = lower REWARD_NAME"
    then have "length (lower ''Hydrate'') = length (lower REWARD_NAME)" by simp
    then show False by (simp add: lower_def REWARD_NAME_def)
  qed
  have a7: "find_song_reward [[''title'' \<mapsto> PStr ''Hydrate'', ''id'' \<mapsto> PStr ''r0'']] = Inr None"
    using ne by (simp add: dict_item_def py_lower_def)
  have a8: "strip ''somechannel'' = ''somechannel''" by code_simp
  have a9: "get_song_requests_from_twitch twitch_granted ''somechannel''
       = Returns (ResultPair
           [\<lparr>dr_track_id = ''abc123'', dr_user = PStr ''ann'',
             dr_redeemed_at = PStr ''2024-01-01T10:00:00Z'', dr_status = PStr ''FULFILLED'',
             dr_original_input = PStr ''https://open.spotify.com/track/abc123'',
             dr_method = ''direct_url''\<rparr>]
           [\<lparr>sq_search_query = ''please play freebird'', sq_user = PStr ''bob'',
             sq_redeemed_at = PStr ''2024-01-01T10:01:00Z'', sq_status = PStr ''UNFULFILLED''\<rparr>])"
    by code_simp
  have w1: "get_song_requests_from_twitch twitch_denied ''somechannel''
              = Returns (ResultPair [] [])"
    using fetch_failure_branch_unreachable [of twitch_denied "''somechannel''"] a1 by blast
  have w2: "get_song_requests_from_twitch twitch_no_broadcaster ''somechannel''
              = Returns (ResultPair [] [])"
    using fetch_failure_branch_unreachable
            [of twitch_no_broadcaster "''somechannel''" _ _ _ PNone] a2 a3
    by (simp del: truthy.simps) simp
  have b: "truthy (PStr ''42'')" by simp
  have w3: "get_song_requests_from_twitch twitch_no_reward ''somechannel''
              = Returns (ResultPair [] [])"
    using fetch_failure_branch_unreachable
            [of twitch_no_reward "''somechannel''" _ _ _ "PStr ''42''"
                "[[''title'' \<mapsto> PStr ''Hydrate'', ''id'' \<mapsto> PStr ''r0'']]"]
          a4 a5 a6 a7 b
    by blast
  have s: "strip ''somechannel'' \<noteq> []" using a8 by simp
  have w4: "main ''somechannel'' twitch_no_reward spotify_flaky = (Returns NoValidRequests, [])"
    using fetch_failure_branch_unreachable
            [of twitch_no_reward _ _ "''somechannel''" spotify_flaky] s w3 a8
    by simp
  have w5: "result_truthy (ResultPair
           [\<lparr>dr_track_id = ''abc123'', dr_user = PStr ''ann'',
             dr_redeemed_at = PStr ''2024-01-01T10:00:00Z'', dr_status = PStr ''FULFILLED'',
             dr_original_input = PStr ''https://open.spotify.com/track/abc123'',
             dr_method = ''direct_url''\<rparr>]
           [\<lparr>sq_search_query = ''please play freebird'', sq_user = PStr ''bob'',
             sq_redeemed_at = PStr ''2024-01-01T10:01:00Z'', sq_status = PStr ''UNFULFILLED''\<rparr>])"
    using fetch_failure_branch_unreachable [of twitch_granted "''somechannel''"] a9 by blast
  show ?thesis using a1 w1 a2 a3 w2 a7 w3 s w4 a9 w5 by blast
qed

subsection \<open>C8: the authorization wait is bounded\<close>

text \<open>
  Claim C8. Once the local server is up, the wait is a loop of at most 120 one-second
  sleeps: the flow returns after \<open>n\<close> sleeps with \<open>1 \<le> n \<le> 120\<close>, and fewer than 120
  only when the access token is set. If the token is first set by the callbacks of tick
  \<open>k\<close>, the flow sleeps \<open>k + 1\<close> times, cleans up and returns success. If no token is
  set in any of the 120 ticks, the flow sleeps 120 times, cleans up, reports the timeout
  and returns failure.
\<close>

theorem authorization_wait_bounded:
  "(au_server_start env = None \<longrightarrow>
      (\<exists>n. 0 < n \<and> n \<le> 120
         \<and> start_oauth_flow env self =
             (Inr (truthy (access_token (after_ticks env self n))), after_ticks env self n,
              map Slept [0 ..< n]
                @ (if truthy (access_token (after_ticks env self n)) then [CleanedUp]
                   else [CleanedUp, PrintedTimeout]))
         \<and> ticks (snd (snd (start_oauth_flow env self))) = n
         \<and> (n < 120 \<longrightarrow> truthy (access_token (after_ticks env self n)))))
   \<and> (au_server_start env = None \<and> k < 120
        \<and> truthy (access_token (after_ticks env self (Suc k)))
        \<and> (\<forall>j < k. \<not> truthy (access_token (after_ticks env self (Suc j))))
       \<longrightarrow> start_oauth_flow env self =
             (Inr True, after_ticks env self (Suc k), map Slept [0 ..< Suc k] @ [CleanedUp]))
   \<and> (au_server_start env = None
        \<and> (\<forall>j < 120. \<not> truthy (access_token (after_ticks env self (Suc j))))
       \<longrightarrow> start_oauth_flow env self =
             (Inr False, after_ticks env self 120,
              map Slept [0 ..< 120] @ [CleanedUp, PrintedTimeout]))"
proof (intro conjI impI)
  assume a: "au_server_start env = None"
  from start_oauth_flow_shape [OF a, of self] obtain n where
    n: "0 < n" "n \<le> 120"
    and f: "start_oauth_flow env self =
             (Inr (truthy (access_token (after_ticks env self n))), after_ticks env self n,
              map Slept [0 ..< n]
                @ (if truthy (access_token (after_ticks env self n)) then [CleanedUp]
                   else [CleanedUp, PrintedTimeout]))"
    and e: "n < 120 \<longrightarrow> truthy (access_token (after_ticks env self n))"
    by blast
  have "ticks (snd (snd (start_oauth_flow env self))) = n"
    unfolding f by (simp add: ticks_append_slept) (simp add: ticks_def)
  with n f e show "\<exists>n. 0 < n \<and> n \<le> 120
         \<and> start_oauth_flow env self =
             (Inr (truthy (access_token (after_ticks env self n))), after_ticks env self n,
              map Slept [0 ..< n]
                @ (if truthy (access_token (after_ticks env self n)) then [CleanedUp]
                   else [CleanedUp, PrintedTimeout]))
         \<and> ticks (snd (snd (start_oauth_flow env self))) = n
         \<and> (n < 120 \<longrightarrow> truthy (access_token (after_ticks env self n)))"
    by blast
next
  assume h: "au_server_start env = None \<and> k < 120
        \<and> truthy (access_token (after_ticks env self (Suc k)))
        \<and> (\<forall>j < k. \<not> truthy (access_token (after_ticks env self (Suc j))))"
  then show "start_oauth_flow env self =
             (Inr True, after_ticks env self (Suc k), map Slept [0 ..< Suc k] @ [CleanedUp])"
    by (intro start_oauth_flow_first) blast+
next
  assume h: "au_server_start env = None
        \<and> (\<forall>j < 120. \<not> truthy (access_token (after_ticks env self (Suc j))))"
  then show "start_oauth_flow env self =
             (Inr False, after_ticks env self 120,
              map Slept [0 ..< 120] @ [CleanedUp, PrintedTimeout])"
    by (intro start_oauth_flow_timeout) blast+
qed

theorem authorization_wait_bounded_witness:
  "au_server_start auth_granted = None
   \<and> truthy (access_token (after_ticks auth_granted oauth_init (Suc 2)))
   \<and> start_oauth_flow auth_granted oauth_init =
       (Inr True, after_ticks auth_granted oauth_init (Suc 2),
        map Slept [0 ..< Suc 2] @ [CleanedUp])
   \<and> au_server_start auth_denied = None
   \<and> start_oauth_flow auth_denied oauth_init =
       (Inr False, after_ticks auth_denied oauth_init 120,
        map Slept [0 ..< 120] @ [CleanedUp, PrintedTimeout])
   \<and> ticks (snd (snd (start_oauth_flow auth_granted oauth_init))) \<le> 120
   \<and> ticks (snd (snd (start_oauth_flow auth_denied oauth_init))) \<le> 120"
proof -
  have g0: "au_server_start auth_granted = None" by (simp add: auth_granted_def)
  have g1: "truthy (access_token (after_ticks auth_granted oauth_init (Suc 2)))"
    by code_simp
  have g2: "\<not> truthy (access_token (after_ticks auth_granted oauth_init (Suc 0)))"
    by code_simp
  have g3: "\<not> truthy (access_token (after_ticks auth_granted oauth_init (Suc 1)))"
    by code_simp
  have g4: "\<forall>j < 2. \<not> truthy (access_token (after_ticks auth_granted oauth_init (Suc j)))"
  proof (intro allI impI)
    fix j :: nat assume "j < 2"
    then have "j = 0 \<or> j = 1" by auto
    with g2 g3 show "\<not> truthy (access_token (after_ticks auth_granted oauth_init (Suc j)))"
      by auto
  qed
  have d0: "au_server_start auth_denied = None" by (simp add: auth_denied_def)
  have rej: "\<forall>k < n. \<forall>request \<in> set (au_arrivals auth_denied k).
               denied_or_mismatched (au_token_urlsafe auth_denied) request" for n
    by (simp add: auth_denied_def denied_or_mismatched_def params_get_def)
  have d1: "\<forall>j < 120. \<not> truthy (access_token (after_ticks auth_denied oauth_init (Suc j)))"
    by (simp add: after_ticks_rejected [OF rej] oauth_init_def)
  have a: "start_oauth_flow auth_granted oauth_init =
       (Inr True, after_ticks auth_granted oauth_init (Suc 2),
        map Slept [0 ..< Suc 2] @ [CleanedUp])"
  proof -
    have lt: "(2::nat) < 120" by simp
    show ?thesis
      using authorization_wait_bounded [of auth_granted oauth_init 2] g0 g1 g4 lt by blast
  qed
  have b: "start_oauth_flow auth_denied oauth_init =
       (Inr False, after_ticks auth_denied oauth_init 120,
        map Slept [0 ..< 120] @ [CleanedUp, PrintedTimeout])"
    using authorization_wait_bounded [of auth_denied oauth_init 0] d0 d1 by blast
  have c: "ticks (snd (snd (start_oauth_flow auth_granted oauth_init))) \<le> 120"
    using authorization_wait_bounded [of auth_granted oauth_init] g0 by metis
  have d: "ticks (snd (snd (start_oauth_flow auth_denied oauth_init))) \<le> 120"
    using authorization_wait_bounded [of auth_denied oauth_init] d0 by metis
  show ?thesis using g0 g1 a d0 b c d by blast
qed

end
